theory Spec2Isabelle
  imports Complex_Main "HOL-Library.Word" "HOL-Library.Signed_Division"
    "HOL-Library.Sublist" "HOL-Library.Multiset" "HOL-Library.Product_Lexorder"
begin

unbundle bit_operations_syntax

section \<open>Data model of \<open>polygon_triangulation.h\<close>\<close>

text \<open>
  The class \<open>POLYGON_TRIANGULATION\<close> keeps its vertices in a \<open>std::deque<VERTEX>\<close> that
  only grows during a call; a \<open>VERTEX*\<close> is modelled as the position of the vertex in
  that deque, and a nullable pointer as an \<open>option\<close> of it.  The coordinates are
  \<open>double\<close>s in the source but are always initialised from the integer coordinates of a
  \<open>VECTOR2I\<close>; they are modelled as integers and the arithmetic on them as exact
  (the source computes the same values as long as the products stay below \<open>2^53\<close>).
\<close>

type_synonym vptr = nat

record VERTEX =
  v_i :: nat
  v_x :: int
  v_y :: int
  v_prev :: "vptr option"
  v_next :: "vptr option"
  v_z :: "32 word"
  v_prevZ :: "vptr option"
  v_nextZ :: "vptr option"

record BOX2I =
  bb_x :: int
  bb_y :: int
  bb_w :: int
  bb_h :: int

text \<open>
  Modelled from the spec: \<open>SHAPE_POLY_SET::TRIANGULATED_POLYGON\<close> (the result sink) is
  declared outside the sources at hand.  It is an append-only sequence of points and an
  append-only sequence of index triples; \<open>Clear\<close> empties both, \<open>AddVertex\<close> and
  \<open>AddTriangle\<close> append, \<open>GetVertexCount\<close> is the number of points.
\<close>

record TRIANGULATED_POLYGON =
  tp_vertices :: "(int \<times> int) list"
  tp_triangles :: "(nat \<times> nat \<times> nat) list"

definition Clear :: "TRIANGULATED_POLYGON \<Rightarrow> TRIANGULATED_POLYGON" where
  "Clear r = r\<lparr>tp_vertices := [], tp_triangles := []\<rparr>"

definition AddVertex :: "int \<times> int \<Rightarrow> TRIANGULATED_POLYGON \<Rightarrow> TRIANGULATED_POLYGON" where
  "AddVertex pt r = r\<lparr>tp_vertices := tp_vertices r @ [pt]\<rparr>"

definition AddTriangle :: "nat \<Rightarrow> nat \<Rightarrow> nat \<Rightarrow> TRIANGULATED_POLYGON \<Rightarrow> TRIANGULATED_POLYGON" where
  "AddTriangle a b c r = r\<lparr>tp_triangles := tp_triangles r @ [(a, b, c)]\<rparr>"

definition GetVertexCount :: "TRIANGULATED_POLYGON \<Rightarrow> nat" where
  "GetVertexCount r = length (tp_vertices r)"

record POLYGON_TRIANGULATION =
  m_bbox :: BOX2I
  m_vertices :: "VERTEX list"
  m_result :: TRIANGULATED_POLYGON

text \<open>
  Modelled from the spec: \<open>SHAPE_LINE_CHAIN\<close> is declared outside the sources at hand.
  A chain is its list of points; \<open>CPoint\<close> wraps an index one past the end back to the
  first point (the ring is implicitly closed), and \<open>BBox\<close> is the axis-aligned bounding
  box of the points (the empty box for no points).
\<close>

type_synonym SHAPE_LINE_CHAIN = "(int \<times> int) list"

definition PointCount :: "SHAPE_LINE_CHAIN \<Rightarrow> nat" where
  "PointCount points = length points"

definition CPoint :: "SHAPE_LINE_CHAIN \<Rightarrow> nat \<Rightarrow> int \<times> int" where
  "CPoint points k = (if k \<ge> length points then points ! (k - length points) else points ! k)"

definition BBox :: "SHAPE_LINE_CHAIN \<Rightarrow> BOX2I" where
  "BBox points =
     (case points of
        [] \<Rightarrow> \<lparr>bb_x = 0, bb_y = 0, bb_w = 0, bb_h = 0\<rparr>
      | pt # pts \<Rightarrow>
          let xmin = fold (\<lambda>q m. min (fst q) m) pts (fst pt);
              xmax = fold (\<lambda>q m. max (fst q) m) pts (fst pt);
              ymin = fold (\<lambda>q m. min (snd q) m) pts (snd pt);
              ymax = fold (\<lambda>q m. max (snd q) m) pts (snd pt)
          in \<lparr>bb_x = xmin, bb_y = ymin, bb_w = xmax - xmin, bb_h = ymax - ymin\<rparr>)"

subsection \<open>Undefined behaviour and non-termination as values\<close>

text \<open>
  Dereferencing a null \<open>VERTEX*\<close> is undefined behaviour in the source; in the model it
  is the error \<open>NullDeref\<close>.  The loops of the source that walk the linked lists are
  given a fuel; a loop that has not finished when the fuel is used up yields
  \<open>OutOfFuel\<close>.
\<close>

datatype error = NullDeref | OutOfFuel

definition bindE :: "error + 'a \<Rightarrow> ('a \<Rightarrow> error + 'b) \<Rightarrow> error + 'b" where
  "bindE m f = (case m of Inl e \<Rightarrow> Inl e | Inr a \<Rightarrow> f a)"

definition vertex :: "VERTEX list \<Rightarrow> vptr option \<Rightarrow> error + VERTEX" where
  "vertex h p =
     (case p of None \<Rightarrow> Inl NullDeref
      | Some a \<Rightarrow> if a < length h then Inr (h ! a) else Inl NullDeref)"

definition upd :: "VERTEX list \<Rightarrow> vptr option \<Rightarrow> (VERTEX \<Rightarrow> VERTEX) \<Rightarrow> error + VERTEX list" where
  "upd h p f =
     (case p of None \<Rightarrow> Inl NullDeref
      | Some a \<Rightarrow> if a < length h then Inr (h[a := f (h ! a)]) else Inl NullDeref)"

subsection \<open>\<open>zOrder\<close>\<close>

definition spread_bits :: "32 word \<Rightarrow> 32 word" where
  "spread_bits x0 =
     (let x1 = (x0 OR push_bit 8 x0) AND 0x00FF00FF;
          x2 = (x1 OR push_bit 4 x1) AND 0x0F0F0F0F;
          x3 = (x2 OR push_bit 2 x2) AND 0x33333333;
          x4 = (x3 OR push_bit 1 x3) AND 0x55555555
      in x4)"

definition normalize_axis :: "int \<Rightarrow> int \<Rightarrow> int \<Rightarrow> int" where
  "normalize_axis a org len = (32767 * (a - org)) sdiv len"

definition zOrder :: "BOX2I \<Rightarrow> int \<Rightarrow> int \<Rightarrow> 32 word" where
  "zOrder bb aX aY =
     (let x = word_of_int (normalize_axis aX (bb_x bb) (bb_w bb)) :: 32 word;
          y = word_of_int (normalize_axis aY (bb_y bb) (bb_h bb)) :: 32 word
      in spread_bits x OR push_bit 1 (spread_bits y))"

subsection \<open>Geometric predicates\<close>

definition veq :: "VERTEX \<Rightarrow> VERTEX \<Rightarrow> bool" where
  "veq a b \<longleftrightarrow> v_x a = v_x b \<and> v_y a = v_y b"

definition area_v :: "VERTEX \<Rightarrow> VERTEX \<Rightarrow> VERTEX \<Rightarrow> int" where
  "area_v p q r = (v_y q - v_y p) * (v_x r - v_x q) - (v_x q - v_x p) * (v_y r - v_y q)"

definition area :: "VERTEX list \<Rightarrow> vptr option \<Rightarrow> vptr option \<Rightarrow> vptr option \<Rightarrow> error + int" where
  "area h p q r =
     bindE (vertex h p) (\<lambda>P. bindE (vertex h q) (\<lambda>Q. bindE (vertex h r) (\<lambda>R.
       Inr (area_v P Q R))))"

definition inTriangle :: "VERTEX \<Rightarrow> VERTEX \<Rightarrow> VERTEX \<Rightarrow> VERTEX \<Rightarrow> bool" where
  "inTriangle t a b c \<longleftrightarrow>
       (v_x c - v_x t) * (v_y a - v_y t) - (v_x a - v_x t) * (v_y c - v_y t) \<ge> 0
     \<and> (v_x a - v_x t) * (v_y b - v_y t) - (v_x b - v_x t) * (v_y a - v_y t) \<ge> 0
     \<and> (v_x b - v_x t) * (v_y c - v_y t) - (v_x c - v_x t) * (v_y b - v_y t) \<ge> 0"

definition sign :: "int \<Rightarrow> int" where
  "sign aVal = (if aVal > 0 then 1 else 0) - (if aVal < 0 then 1 else 0)"

definition overlapping :: "VERTEX \<Rightarrow> VERTEX \<Rightarrow> VERTEX \<Rightarrow> bool" where
  "overlapping p q r \<longleftrightarrow>
       v_x q \<le> max (v_x p) (v_x r) \<and> v_x q \<ge> min (v_x p) (v_x r)
     \<and> v_y q \<le> max (v_y p) (v_y r) \<and> v_y q \<ge> min (v_y p) (v_y r)"

definition intersects_v :: "VERTEX \<Rightarrow> VERTEX \<Rightarrow> VERTEX \<Rightarrow> VERTEX \<Rightarrow> bool" where
  "intersects_v p1 q1 p2 q2 =
     (let sign1 = sign (area_v p1 q1 p2);
          sign2 = sign (area_v p1 q1 q2);
          sign3 = sign (area_v p2 q2 p1);
          sign4 = sign (area_v p2 q2 q1)
      in if sign1 \<noteq> sign2 \<and> sign3 \<noteq> sign4 then True
         else if sign1 = 0 \<and> overlapping p1 p2 q1 then True
         else if sign2 = 0 \<and> overlapping p1 q2 q1 then True
         else if sign3 = 0 \<and> overlapping p2 p1 q2 then True
         else if sign4 = 0 \<and> overlapping p2 q1 q2 then True
         else False)"

definition intersects ::
  "VERTEX list \<Rightarrow> vptr option \<Rightarrow> vptr option \<Rightarrow> vptr option \<Rightarrow> vptr option \<Rightarrow> error + bool" where
  "intersects h p1 q1 p2 q2 =
     bindE (vertex h p1) (\<lambda>P1. bindE (vertex h q1) (\<lambda>Q1.
     bindE (vertex h p2) (\<lambda>P2. bindE (vertex h q2) (\<lambda>Q2.
       Inr (intersects_v P1 Q1 P2 Q2)))))"

definition locallyInside :: "VERTEX list \<Rightarrow> vptr option \<Rightarrow> vptr option \<Rightarrow> error + bool" where
  "locallyInside h a b =
     bindE (vertex h a) (\<lambda>A. bindE (vertex h (v_prev A)) (\<lambda>AP.
     bindE (vertex h (v_next A)) (\<lambda>AN.
       if area_v AP A AN < 0
       then bindE (vertex h b) (\<lambda>B. Inr (area_v A B AN \<ge> 0 \<and> area_v A AP B \<ge> 0))
       else bindE (vertex h b) (\<lambda>B. Inr (area_v A B AP < 0 \<or> area_v A AN B < 0)))))"

subsection \<open>Sequencing of steps that can fail\<close>

definition withE :: "'s \<Rightarrow> error + 'a \<Rightarrow> ('a \<Rightarrow> (error + 'b) \<times> 's) \<Rightarrow> (error + 'b) \<times> 's" where
  "withE s m k = (case m of Inl e \<Rightarrow> (Inl e, s) | Inr a \<Rightarrow> k a)"

definition thenS :: "(error + 'a) \<times> 's \<Rightarrow> ('a \<Rightarrow> 's \<Rightarrow> (error + 'b) \<times> 's) \<Rightarrow> (error + 'b) \<times> 's" where
  "thenS r k = (case r of (Inl e, s) \<Rightarrow> (Inl e, s) | (Inr a, s) \<Rightarrow> k a s)"

subsection \<open>\<open>VERTEX::remove\<close>, \<open>VERTEX::updateOrder\<close>, \<open>VERTEX::split\<close>\<close>

definition remove :: "VERTEX list \<Rightarrow> vptr option \<Rightarrow> error + VERTEX list" where
  "remove h this =
     bindE (vertex h this) (\<lambda>T.
     bindE (upd h (v_next T) (\<lambda>u. u\<lparr>v_prev := v_prev T\<rparr>)) (\<lambda>h1.
     bindE (vertex h1 this) (\<lambda>T1.
     bindE (upd h1 (v_prev T1) (\<lambda>u. u\<lparr>v_next := v_next T1\<rparr>)) (\<lambda>h2.
     bindE (vertex h2 this) (\<lambda>T2.
     bindE (if v_prevZ T2 \<noteq> None
            then upd h2 (v_prevZ T2) (\<lambda>u. u\<lparr>v_nextZ := v_nextZ T2\<rparr>) else Inr h2) (\<lambda>h3.
     bindE (vertex h3 this) (\<lambda>T3.
     bindE (if v_nextZ T3 \<noteq> None
            then upd h3 (v_nextZ T3) (\<lambda>u. u\<lparr>v_prevZ := v_prevZ T3\<rparr>) else Inr h3) (\<lambda>h4.
     upd h4 this (\<lambda>u. u\<lparr>v_next := None, v_prev := None, v_nextZ := None, v_prevZ := None\<rparr>)))))))))"

definition updateOrder :: "BOX2I \<Rightarrow> VERTEX list \<Rightarrow> vptr option \<Rightarrow> error + VERTEX list" where
  "updateOrder bb h this =
     bindE (vertex h this) (\<lambda>T.
       if v_z T = 0 then upd h this (\<lambda>u. u\<lparr>v_z := zOrder bb (v_x u) (v_y u)\<rparr>) else Inr h)"

definition new_VERTEX :: "nat \<Rightarrow> int \<Rightarrow> int \<Rightarrow> VERTEX" where
  "new_VERTEX aIndex aX aY =
     \<lparr>v_i = aIndex, v_x = aX, v_y = aY, v_prev = None, v_next = None, v_z = 0,
      v_prevZ = None, v_nextZ = None\<rparr>"

definition split :: "VERTEX list \<Rightarrow> vptr option \<Rightarrow> vptr option \<Rightarrow> error + (vptr option \<times> VERTEX list)" where
  "split h this b =
     bindE (vertex h this) (\<lambda>T. bindE (vertex h b) (\<lambda>B.
       let h1 = h @ [new_VERTEX (v_i T) (v_x T) (v_y T)];
           a2 = Some (length h);
           h2 = h1 @ [new_VERTEX (v_i B) (v_x B) (v_y B)];
           b2 = Some (length h1);
           an = v_next T;
           bp = v_prev B
       in bindE (upd h2 this (\<lambda>u. u\<lparr>v_next := b\<rparr>)) (\<lambda>h3.
          bindE (upd h3 b (\<lambda>u. u\<lparr>v_prev := this\<rparr>)) (\<lambda>h4.
          bindE (upd h4 a2 (\<lambda>u. u\<lparr>v_next := an\<rparr>)) (\<lambda>h5.
          bindE (upd h5 an (\<lambda>u. u\<lparr>v_prev := a2\<rparr>)) (\<lambda>h6.
          bindE (upd h6 b2 (\<lambda>u. u\<lparr>v_next := a2\<rparr>)) (\<lambda>h7.
          bindE (upd h7 a2 (\<lambda>u. u\<lparr>v_prev := b2\<rparr>)) (\<lambda>h8.
          bindE (upd h8 bp (\<lambda>u. u\<lparr>v_next := b2\<rparr>)) (\<lambda>h9.
          bindE (upd h9 b2 (\<lambda>u. u\<lparr>v_prev := bp\<rparr>)) (\<lambda>h10.
          Inr (b2, h10)))))))))))"

subsection \<open>\<open>VERTEX::zSort\<close> and \<open>VERTEX::updateList\<close>\<close>

text \<open>The comparison function handed to \<open>std::sort\<close>.\<close>

definition zless :: "VERTEX \<Rightarrow> VERTEX \<Rightarrow> bool" where
  "zless a b =
     (if v_z a \<noteq> v_z b then sint (v_z a) < sint (v_z b)
      else if v_x a \<noteq> v_x b then v_x a < v_x b
      else if v_y a \<noteq> v_y b then v_y a < v_y b
      else v_i a < v_i b)"

definition zkey :: "VERTEX \<Rightarrow> int \<times> int \<times> int \<times> nat" where
  "zkey a = (sint (v_z a), v_x a, v_y a, v_i a)"

text \<open>
  The first loop of \<open>zSort\<close>: the vertices reached from \<open>this->next\<close> through \<open>next\<close>
  until a null pointer or \<open>this\<close> is met.
\<close>

fun zSort_collect :: "nat \<Rightarrow> VERTEX list \<Rightarrow> vptr option \<Rightarrow> vptr option \<Rightarrow> error + vptr list" where
  "zSort_collect 0 h this p = Inl OutOfFuel"
| "zSort_collect (Suc n) h this p =
     (case p of None \<Rightarrow> Inr []
      | Some a \<Rightarrow>
          if p = this then Inr []
          else bindE (vertex h p) (\<lambda>P.
               bindE (zSort_collect n h this (v_next P)) (\<lambda>r. Inr (a # r))))"

text \<open>
  \<open>std::sort\<close> returns a permutation of the queue that is ordered by the comparison
  function; it is modelled by the insertion sort of the library on the key
  \<open>(z, x, y, i)\<close> under the lexicographic order, which the comparison function decides
  (\<open>zless_iff_zkey\<close> below).
\<close>

definition std_sort :: "VERTEX list \<Rightarrow> vptr list \<Rightarrow> vptr list" where
  "std_sort h queue = sort_key (\<lambda>a. zkey (h ! a)) queue"

text \<open>The second loop of \<open>zSort\<close>, which links the sorted queue.\<close>

fun zSort_link :: "VERTEX list \<Rightarrow> vptr option \<Rightarrow> vptr list \<Rightarrow> error + (vptr option \<times> VERTEX list)" where
  "zSort_link h prev_elem [] = Inr (prev_elem, h)"
| "zSort_link h prev_elem (elem # queue) =
     bindE (if prev_elem \<noteq> None
            then upd h prev_elem (\<lambda>u. u\<lparr>v_nextZ := Some elem\<rparr>) else Inr h) (\<lambda>h1.
     bindE (upd h1 (Some elem) (\<lambda>u. u\<lparr>v_prevZ := prev_elem\<rparr>)) (\<lambda>h2.
     zSort_link h2 (Some elem) queue))"

definition zSort :: "nat \<Rightarrow> VERTEX list \<Rightarrow> vptr option \<Rightarrow> error + VERTEX list" where
  "zSort fuel h this =
     (case this of None \<Rightarrow> Inl NullDeref
      | Some t \<Rightarrow>
          bindE (vertex h this) (\<lambda>T.
          bindE (zSort_collect fuel h this (v_next T)) (\<lambda>rest.
          bindE (zSort_link h None (std_sort h (t # rest))) (\<lambda>(prev_elem, h1).
          upd h1 prev_elem (\<lambda>u. u\<lparr>v_nextZ := None\<rparr>)))))"

fun updateList_loop ::
  "nat \<Rightarrow> BOX2I \<Rightarrow> VERTEX list \<Rightarrow> vptr option \<Rightarrow> vptr option \<Rightarrow> error + VERTEX list" where
  "updateList_loop 0 bb h this p = Inl OutOfFuel"
| "updateList_loop (Suc n) bb h this p =
     (if p \<noteq> this then
        bindE (vertex h p) (\<lambda>P. bindE (vertex h (v_next P)) (\<lambda>PN.
          if veq P PN then
            bindE (vertex h (v_prev P)) (\<lambda>Q.
            bindE (remove h (v_next Q)) (\<lambda>h1.
            bindE (vertex h1 (v_prev P)) (\<lambda>Q1.
              if v_prev P = v_next Q1 then Inr h1
              else bindE (updateOrder bb h1 (v_prev P)) (\<lambda>h2.
                   bindE (vertex h2 (v_prev P)) (\<lambda>Q2.
                   updateList_loop n bb h2 this (v_next Q2))))))
          else bindE (updateOrder bb h p) (\<lambda>h2.
               bindE (vertex h2 p) (\<lambda>P2.
               updateList_loop n bb h2 this (v_next P2)))))
      else Inr h)"

definition updateList :: "nat \<Rightarrow> BOX2I \<Rightarrow> VERTEX list \<Rightarrow> vptr option \<Rightarrow> error + VERTEX list" where
  "updateList fuel bb h this =
     bindE (vertex h this) (\<lambda>T.
     bindE (updateList_loop fuel bb h this (v_next T)) (\<lambda>h1.
     bindE (updateOrder bb h1 this) (\<lambda>h2.
     zSort fuel h2 this)))"

subsection \<open>\<open>isEar\<close>\<close>

text \<open>
  The two loops of \<open>isEar\<close> differ only in the bound on the key and in the link they
  follow; \<open>isEar_scan\<close> is the loop, with the bound test \<open>inrange\<close> and the link \<open>step\<close>
  as arguments.  It yields \<open>True\<close> when the loop body executes \<open>return false\<close>.
\<close>

fun isEar_scan ::
  "nat \<Rightarrow> VERTEX list \<Rightarrow> (VERTEX \<Rightarrow> bool) \<Rightarrow> (VERTEX \<Rightarrow> vptr option) \<Rightarrow>
   vptr option \<Rightarrow> vptr option \<Rightarrow> VERTEX \<Rightarrow> VERTEX \<Rightarrow> VERTEX \<Rightarrow> vptr option \<Rightarrow> error + bool" where
  "isEar_scan 0 h inrange step a c A B C p = (if p = None then Inr False else Inl OutOfFuel)"
| "isEar_scan (Suc n) h inrange step a c A B C p =
     (if p = None then Inr False
      else bindE (vertex h p) (\<lambda>P.
        if inrange P then
          bindE (if p \<noteq> a \<and> p \<noteq> c \<and> inTriangle P A B C
                 then bindE (area h (v_prev P) p (v_next P)) (\<lambda>ar. Inr (ar \<ge> 0))
                 else Inr False) (\<lambda>blocked.
            if blocked then Inr True
            else isEar_scan n h inrange step a c A B C (step P))
        else Inr False))"

definition isEar :: "nat \<Rightarrow> BOX2I \<Rightarrow> VERTEX list \<Rightarrow> vptr option \<Rightarrow> error + bool" where
  "isEar fuel bb h aEar =
     bindE (vertex h aEar) (\<lambda>B.
       let a = v_prev B; c = v_next B in
       bindE (vertex h a) (\<lambda>A. bindE (vertex h c) (\<lambda>C.
         if area_v A B C \<ge> 0 then Inr False
         else
           let minTX = min (v_x A) (min (v_x B) (v_x C));
               minTY = min (v_y A) (min (v_y B) (v_y C));
               maxTX = max (v_x A) (max (v_x B) (v_x C));
               maxTY = max (v_y A) (max (v_y B) (v_y C));
               minZ = zOrder bb minTX minTY;
               maxZ = zOrder bb maxTX maxTY
           in bindE (isEar_scan fuel h (\<lambda>P. sint (v_z P) \<le> sint maxZ) v_nextZ a c A B C (v_nextZ B))
                (\<lambda>found.
                  if found then Inr False
                  else bindE (isEar_scan fuel h (\<lambda>P. sint (v_z P) \<ge> sint minZ) v_prevZ a c A B C
                                (v_prevZ B))
                         (\<lambda>found'. if found' then Inr False else Inr True)))))"

subsection \<open>\<open>removeNullTriangles\<close>\<close>

fun removeNullTriangles_loop ::
  "nat \<Rightarrow> VERTEX list \<Rightarrow> vptr option \<Rightarrow> vptr option \<Rightarrow> vptr option \<Rightarrow>
   error + (vptr option \<times> vptr option \<times> VERTEX list)" where
  "removeNullTriangles_loop 0 h aStart retval p = Inl OutOfFuel"
| "removeNullTriangles_loop (Suc n) h aStart retval p =
     (if p \<noteq> aStart then
        bindE (vertex h p) (\<lambda>P. bindE (vertex h (v_next P)) (\<lambda>PN.
        bindE (if veq P PN then Inr True
               else bindE (area h (v_prev P) p (v_next P)) (\<lambda>ar. Inr (ar = 0))) (\<lambda>null_tri.
          if null_tri then
            bindE (vertex h (v_prev P)) (\<lambda>Q.
            bindE (remove h (v_next Q)) (\<lambda>h1.
            bindE (vertex h1 (v_prev P)) (\<lambda>Q1.
              if v_prev P = v_next Q1 then Inr (aStart, v_prev P, h1)
              else removeNullTriangles_loop n h1 aStart aStart (v_next Q1))))
          else removeNullTriangles_loop n h aStart retval (v_next P))))
      else Inr (retval, p, h))"

definition removeNullTriangles ::
  "nat \<Rightarrow> VERTEX list \<Rightarrow> vptr option \<Rightarrow> error + (vptr option \<times> VERTEX list)" where
  "removeNullTriangles fuel h aStart =
     bindE (vertex h aStart) (\<lambda>S.
     bindE (removeNullTriangles_loop fuel h aStart None (v_next S)) (\<lambda>(retval, p, h1).
     bindE (vertex h1 aStart) (\<lambda>S1.
     bindE (area h1 (v_prev S1) aStart (v_next S1)) (\<lambda>ar.
       if ar = 0 then
         bindE (vertex h1 p) (\<lambda>P.
         bindE (remove h1 p) (\<lambda>h2. Inr (v_next P, h2)))
       else Inr (retval, h1)))))"

subsection \<open>\<open>insertVertex\<close> and \<open>createList\<close>\<close>

definition insertVertex ::
  "POLYGON_TRIANGULATION \<Rightarrow> int \<times> int \<Rightarrow> vptr option \<Rightarrow>
   (error + vptr option) \<times> POLYGON_TRIANGULATION" where
  "insertVertex s pt last_v =
     (let s1 = s\<lparr>m_result := AddVertex pt (m_result s)\<rparr>;
          p = Some (length (m_vertices s1));
          s2 = s1\<lparr>m_vertices := m_vertices s1 @
                   [new_VERTEX (GetVertexCount (m_result s1) - 1) (fst pt) (snd pt)]\<rparr>
      in withE s2
           (if last_v = None then
              bindE (upd (m_vertices s2) p (\<lambda>u. u\<lparr>v_prev := p\<rparr>)) (\<lambda>h1.
              upd h1 p (\<lambda>u. u\<lparr>v_next := p\<rparr>))
            else
              bindE (vertex (m_vertices s2) last_v) (\<lambda>L.
              bindE (upd (m_vertices s2) p (\<lambda>u. u\<lparr>v_next := v_next L\<rparr>)) (\<lambda>h1.
              bindE (upd h1 p (\<lambda>u. u\<lparr>v_prev := last_v\<rparr>)) (\<lambda>h2.
              bindE (vertex h2 last_v) (\<lambda>L2.
              bindE (upd h2 (v_next L2) (\<lambda>u. u\<lparr>v_prev := p\<rparr>)) (\<lambda>h3.
              upd h3 last_v (\<lambda>u. u\<lparr>v_next := p\<rparr>)))))))
           (\<lambda>h'. (Inr p, s2\<lparr>m_vertices := h'\<rparr>)))"

fun insert_all ::
  "POLYGON_TRIANGULATION \<Rightarrow> (int \<times> int) list \<Rightarrow> vptr option \<Rightarrow>
   (error + vptr option) \<times> POLYGON_TRIANGULATION" where
  "insert_all s [] tail = (Inr tail, s)"
| "insert_all s (pt # pts) tail =
     thenS (insertVertex s pt tail) (\<lambda>tail' s'. insert_all s' pts tail')"

text \<open>The loop of \<open>createList\<close> that checks the winding order.\<close>

definition winding_sum :: "SHAPE_LINE_CHAIN \<Rightarrow> int" where
  "winding_sum points =
     fold (\<lambda>k sum.
             let p1 = CPoint points k; p2 = CPoint points (k + 1)
             in sum + (fst p2 - fst p1) * (snd p2 + snd p1))
          [0 ..< PointCount points] 0"

definition createList ::
  "POLYGON_TRIANGULATION \<Rightarrow> SHAPE_LINE_CHAIN \<Rightarrow> (error + vptr option) \<times> POLYGON_TRIANGULATION" where
  "createList s points =
     (let sum = winding_sum points in
      thenS (if sum > 0
             then insert_all s (map (CPoint points) (rev [0 ..< PointCount points])) None
             else insert_all s (map (CPoint points) [0 ..< PointCount points]) None)
        (\<lambda>tail s1.
           if tail \<noteq> None then
             withE s1 (vertex (m_vertices s1) tail) (\<lambda>T.
             withE s1 (vertex (m_vertices s1) (v_next T)) (\<lambda>TN.
               if veq T TN then
                 withE s1 (remove (m_vertices s1) (v_next T))
                   (\<lambda>h'. (Inr tail, s1\<lparr>m_vertices := h'\<rparr>))
               else (Inr tail, s1)))
           else (Inr tail, s1)))"

subsection \<open>\<open>goodSplit\<close> and the tests it uses\<close>

fun intersectsPolygon_loop ::
  "nat \<Rightarrow> VERTEX list \<Rightarrow> vptr option \<Rightarrow> vptr option \<Rightarrow> vptr option \<Rightarrow> error + bool" where
  "intersectsPolygon_loop 0 h a b p = Inl OutOfFuel"
| "intersectsPolygon_loop (Suc n) h a b p =
     bindE (vertex h p) (\<lambda>P. bindE (vertex h a) (\<lambda>A.
     bindE (if v_i P \<noteq> v_i A then
              bindE (vertex h (v_next P)) (\<lambda>PN.
                if v_i PN \<noteq> v_i A then
                  bindE (vertex h b) (\<lambda>B.
                    if v_i P \<noteq> v_i B \<and> v_i PN \<noteq> v_i B
                    then intersects h p (v_next P) a b else Inr False)
                else Inr False)
            else Inr False) (\<lambda>hit.
       if hit then Inr True
       else if v_next P \<noteq> a then intersectsPolygon_loop n h a b (v_next P)
       else Inr False)))"

definition intersectsPolygon ::
  "nat \<Rightarrow> VERTEX list \<Rightarrow> vptr option \<Rightarrow> vptr option \<Rightarrow> error + bool" where
  "intersectsPolygon fuel h a b =
     bindE (vertex h a) (\<lambda>A. intersectsPolygon_loop fuel h a b (v_next A))"

text \<open>
  \<open>middleInside\<close> divides; the quotient is modelled as the exact rational number.
  The divisor is never zero: the division is guarded by
  \<open>(p->y > py) != (p->next->y > py)\<close>.
\<close>

fun middleInside_loop ::
  "nat \<Rightarrow> VERTEX list \<Rightarrow> vptr option \<Rightarrow> rat \<Rightarrow> rat \<Rightarrow> bool \<Rightarrow> vptr option \<Rightarrow> error + bool" where
  "middleInside_loop 0 h a px py inside p = Inl OutOfFuel"
| "middleInside_loop (Suc n) h a px py inside p =
     bindE (vertex h p) (\<lambda>P. bindE (vertex h (v_next P)) (\<lambda>PN.
       let inside' =
             (if ((of_int (v_y P) > py) \<noteq> (of_int (v_y PN) > py))
                 \<and> px < of_int (v_x PN - v_x P) * (py - of_int (v_y P))
                          / of_int (v_y PN - v_y P) + of_int (v_x P)
              then \<not> inside else inside)
       in if v_next P \<noteq> a then middleInside_loop n h a px py inside' (v_next P)
          else Inr inside'))"

definition middleInside ::
  "nat \<Rightarrow> VERTEX list \<Rightarrow> vptr option \<Rightarrow> vptr option \<Rightarrow> error + bool" where
  "middleInside fuel h a b =
     bindE (vertex h a) (\<lambda>A. bindE (vertex h b) (\<lambda>B.
       middleInside_loop fuel h a (of_int (v_x A + v_x B) / 2) (of_int (v_y A + v_y B) / 2)
         False a))"

definition on_edge :: "VERTEX list \<Rightarrow> vptr option \<Rightarrow> error + bool" where
  "on_edge h a =
     bindE (vertex h a) (\<lambda>A.
     bindE (if v_nextZ A \<noteq> None
            then bindE (vertex h (v_nextZ A)) (\<lambda>AZ. Inr (veq A AZ)) else Inr False) (\<lambda>fwd.
       if fwd then Inr True
       else if v_prevZ A \<noteq> None
            then bindE (vertex h (v_prevZ A)) (\<lambda>AZ. Inr (veq A AZ)) else Inr False))"

definition goodSplit ::
  "nat \<Rightarrow> VERTEX list \<Rightarrow> vptr option \<Rightarrow> vptr option \<Rightarrow> error + bool" where
  "goodSplit fuel h a b =
     bindE (on_edge h a) (\<lambda>a_on_edge.
     bindE (on_edge h b) (\<lambda>b_on_edge.
     bindE (vertex h a) (\<lambda>A. bindE (vertex h b) (\<lambda>B.
     bindE (vertex h (v_next A)) (\<lambda>AN.
     bindE (if v_i AN \<noteq> v_i B then
              bindE (vertex h (v_prev A)) (\<lambda>AP.
                if v_i AP \<noteq> v_i B
                then bindE (intersectsPolygon fuel h a b) (\<lambda>r. Inr (\<not> r))
                else Inr False)
            else Inr False) (\<lambda>no_intersect.
     bindE (bindE (locallyInside h a b) (\<lambda>l1.
              if l1 then bindE (locallyInside h b a) (\<lambda>l2.
                if l2 then middleInside fuel h a b else Inr False)
              else Inr False)) (\<lambda>local_split.
     bindE (bindE (area h (v_prev A) a (v_prev B)) (\<lambda>ar1.
              if ar1 \<noteq> 0 then Inr True
              else bindE (area h a (v_prev B) b) (\<lambda>ar2. Inr (ar2 \<noteq> 0)))) (\<lambda>same_dir.
     bindE (if veq A B then
              bindE (area h (v_prev A) a (v_next A)) (\<lambda>ar1.
                if ar1 > 0
                then bindE (area h (v_prev B) b (v_next B)) (\<lambda>ar2. Inr (ar2 > 0))
                else Inr False)
            else Inr False) (\<lambda>has_len.
       Inr (no_intersect \<and> local_split \<and> (same_dir \<or> has_len)
            \<and> \<not> a_on_edge \<and> \<not> b_on_edge))))))))))"

subsection \<open>\<open>earcutList\<close> and \<open>splitPolygon\<close>\<close>

text \<open>The code of \<open>earcutList\<close> after its loop.\<close>

definition earcut_finish ::
  "POLYGON_TRIANGULATION \<Rightarrow> vptr option \<Rightarrow> (error + bool) \<times> POLYGON_TRIANGULATION" where
  "earcut_finish s aPoint =
     withE s (vertex (m_vertices s) aPoint) (\<lambda>A.
     withE s (if v_next A \<noteq> None
              then bindE (vertex (m_vertices s) (v_next A)) (\<lambda>N. Inr (v_prev A = v_next N))
              else Inr False) (\<lambda>three.
     withE s (if three
              then bindE (area (m_vertices s) (v_prev A) aPoint (v_next A)) (\<lambda>ar. Inr (ar \<ge> 0))
              else Inr False) (\<lambda>dropped.
       if dropped then (Inr True, s) else (Inr (v_prev A = v_next A), s))))"

text \<open>
  The test of the second \<open>if\<close> in the loop of \<open>earcutList\<close> (two edges that cross).
\<close>

definition crossing_test ::
  "VERTEX list \<Rightarrow> vptr option \<Rightarrow> vptr option \<Rightarrow> vptr option \<Rightarrow> vptr option \<Rightarrow> error + bool" where
  "crossing_test h prev aPoint next nextNext =
     bindE (vertex h prev) (\<lambda>P. bindE (vertex h nextNext) (\<lambda>NN.
       if veq P NN then Inr False
       else bindE (intersects h prev aPoint next nextNext) (\<lambda>x.
         if \<not> x then Inr False
         else bindE (locallyInside h prev nextNext) (\<lambda>l1.
           if \<not> l1 then Inr False else locallyInside h nextNext prev))))"

text \<open>
  \<open>earcutList\<close> and \<open>splitPolygon\<close> call each other, and each has loops.  The bodies
  of the two functions and of their loops are written first, with the functions they
  call as arguments; \<open>procs_at\<close> then ties them together by recursion on the fuel, which
  every call and every loop iteration uses up by one.  The equations that result are
  \<open>earcutList_Suc\<close>, \<open>earcut_loop_Suc\<close>, \<open>splitPolygon_Suc\<close>, \<open>splitPolygon_outer_Suc\<close>
  and \<open>splitPolygon_inner_Suc\<close> below.
\<close>

type_synonym result = "(error + bool) \<times> POLYGON_TRIANGULATION"

record procs =
  do_earcutList :: "POLYGON_TRIANGULATION \<Rightarrow> vptr option \<Rightarrow> result"
  do_earcut_loop :: "POLYGON_TRIANGULATION \<Rightarrow> vptr option \<Rightarrow> vptr option \<Rightarrow> result"
  do_splitPolygon :: "POLYGON_TRIANGULATION \<Rightarrow> vptr option \<Rightarrow> result"
  do_splitPolygon_outer :: "POLYGON_TRIANGULATION \<Rightarrow> vptr option \<Rightarrow> vptr option \<Rightarrow> result"
  do_splitPolygon_inner ::
    "POLYGON_TRIANGULATION \<Rightarrow> vptr option \<Rightarrow> vptr option \<Rightarrow> vptr option \<Rightarrow> result"

definition earcutList_body :: "procs \<Rightarrow> POLYGON_TRIANGULATION \<Rightarrow> vptr option \<Rightarrow> result" where
  "earcutList_body r s aPoint =
     (if aPoint = None then (Inr True, s) else do_earcut_loop r s aPoint aPoint)"

definition earcut_loop_body ::
  "nat \<Rightarrow> procs \<Rightarrow> POLYGON_TRIANGULATION \<Rightarrow> vptr option \<Rightarrow> vptr option \<Rightarrow> result" where
  "earcut_loop_body n r s aPoint stop =
     withE s (vertex (m_vertices s) aPoint) (\<lambda>A.
       if v_prev A \<noteq> v_next A then
         let prev = v_prev A; next = v_next A in
         withE s (isEar n (m_bbox s) (m_vertices s) aPoint) (\<lambda>ear.
           if ear then
             withE s (vertex (m_vertices s) prev) (\<lambda>P.
             withE s (vertex (m_vertices s) next) (\<lambda>N.
               let s1 = s\<lparr>m_result := AddTriangle (v_i P) (v_i A) (v_i N) (m_result s)\<rparr> in
               withE s1 (remove (m_vertices s1) aPoint) (\<lambda>h2.
                 let s2 = s1\<lparr>m_vertices := h2\<rparr> in
                 withE s2 (vertex h2 next) (\<lambda>N2.
                   do_earcut_loop r s2 (v_next N2) (v_next N2)))))
           else
             withE s (vertex (m_vertices s) next) (\<lambda>N.
               let nextNext = v_next N in
               withE s (crossing_test (m_vertices s) prev aPoint next nextNext) (\<lambda>crossing.
                 if crossing then
                   withE s (vertex (m_vertices s) prev) (\<lambda>P.
                   withE s (vertex (m_vertices s) nextNext) (\<lambda>NN.
                     let s1 = s\<lparr>m_result := AddTriangle (v_i P) (v_i A) (v_i NN) (m_result s)\<rparr> in
                     withE s1 (remove (m_vertices s1) next) (\<lambda>h2.
                       let s2 = s1\<lparr>m_vertices := h2\<rparr> in
                       withE s2 (remove h2 aPoint) (\<lambda>h3.
                         let s3 = s2\<lparr>m_vertices := h3\<rparr> in
                         do_earcut_loop r s3 nextNext nextNext))))
                 else if next = stop then
                   withE s (removeNullTriangles n (m_vertices s) next) (\<lambda>(newPoint, h1).
                     let s1 = s\<lparr>m_vertices := h1\<rparr> in
                     if newPoint \<noteq> None then do_earcut_loop r s1 newPoint newPoint
                     else thenS (do_splitPolygon r s1 next) (\<lambda>ok s2.
                            if \<not> ok then (Inr False, s2) else earcut_finish s2 next))
                 else do_earcut_loop r s next stop)))
       else earcut_finish s aPoint)"

definition splitPolygon_body :: "procs \<Rightarrow> POLYGON_TRIANGULATION \<Rightarrow> vptr option \<Rightarrow> result" where
  "splitPolygon_body r s start = do_splitPolygon_outer r s start start"

definition splitPolygon_outer_body ::
  "procs \<Rightarrow> POLYGON_TRIANGULATION \<Rightarrow> vptr option \<Rightarrow> vptr option \<Rightarrow> result" where
  "splitPolygon_outer_body r s start origPoly =
     withE s (vertex (m_vertices s) origPoly) (\<lambda>O'.
     withE s (vertex (m_vertices s) (v_next O')) (\<lambda>ON.
       do_splitPolygon_inner r s start origPoly (v_next ON)))"

definition splitPolygon_inner_body ::
  "nat \<Rightarrow> procs \<Rightarrow> POLYGON_TRIANGULATION \<Rightarrow> vptr option \<Rightarrow> vptr option \<Rightarrow> vptr option \<Rightarrow> result" where
  "splitPolygon_inner_body n r s start origPoly marker =
     withE s (vertex (m_vertices s) origPoly) (\<lambda>O'.
       if marker \<noteq> v_prev O' then
         withE s (vertex (m_vertices s) marker) (\<lambda>M.
         withE s (if v_i O' \<noteq> v_i M then goodSplit n (m_vertices s) origPoly marker
                  else Inr False) (\<lambda>good.
           if good then
             withE s (split (m_vertices s) origPoly marker) (\<lambda>(newPoly, h1).
               let s1 = s\<lparr>m_vertices := h1\<rparr> in
               withE s1 (updateList n (m_bbox s1) h1 origPoly) (\<lambda>h2.
                 let s2 = s1\<lparr>m_vertices := h2\<rparr> in
                 withE s2 (updateList n (m_bbox s2) h2 newPoly) (\<lambda>h3.
                   let s3 = s2\<lparr>m_vertices := h3\<rparr> in
                   thenS (do_earcutList r s3 origPoly) (\<lambda>ok s4.
                     if ok then do_earcutList r s4 newPoly else (Inr False, s4)))))
           else do_splitPolygon_inner r s start origPoly (v_next M)))
       else if v_next O' \<noteq> start then do_splitPolygon_outer r s start (v_next O')
       else (Inr False, s))"

primrec procs_at :: "nat \<Rightarrow> procs" where
  "procs_at 0 =
     \<lparr>do_earcutList = (\<lambda>s aPoint. (Inl OutOfFuel, s)),
      do_earcut_loop = (\<lambda>s aPoint stop. (Inl OutOfFuel, s)),
      do_splitPolygon = (\<lambda>s start. (Inl OutOfFuel, s)),
      do_splitPolygon_outer = (\<lambda>s start origPoly. (Inl OutOfFuel, s)),
      do_splitPolygon_inner = (\<lambda>s start origPoly marker. (Inl OutOfFuel, s))\<rparr>"
| "procs_at (Suc n) =
     (let r = procs_at n in
      \<lparr>do_earcutList = earcutList_body r,
       do_earcut_loop = earcut_loop_body n r,
       do_splitPolygon = splitPolygon_body r,
       do_splitPolygon_outer = splitPolygon_outer_body r,
       do_splitPolygon_inner = splitPolygon_inner_body n r\<rparr>)"

definition earcutList :: "nat \<Rightarrow> POLYGON_TRIANGULATION \<Rightarrow> vptr option \<Rightarrow> result" where
  "earcutList fuel = do_earcutList (procs_at fuel)"

definition earcut_loop ::
  "nat \<Rightarrow> POLYGON_TRIANGULATION \<Rightarrow> vptr option \<Rightarrow> vptr option \<Rightarrow> result" where
  "earcut_loop fuel = do_earcut_loop (procs_at fuel)"

definition splitPolygon :: "nat \<Rightarrow> POLYGON_TRIANGULATION \<Rightarrow> vptr option \<Rightarrow> result" where
  "splitPolygon fuel = do_splitPolygon (procs_at fuel)"

definition splitPolygon_outer ::
  "nat \<Rightarrow> POLYGON_TRIANGULATION \<Rightarrow> vptr option \<Rightarrow> vptr option \<Rightarrow> result" where
  "splitPolygon_outer fuel = do_splitPolygon_outer (procs_at fuel)"

definition splitPolygon_inner ::
  "nat \<Rightarrow> POLYGON_TRIANGULATION \<Rightarrow> vptr option \<Rightarrow> vptr option \<Rightarrow> vptr option \<Rightarrow> result" where
  "splitPolygon_inner fuel = do_splitPolygon_inner (procs_at fuel)"

subsection \<open>\<open>TesselatePolygon\<close>\<close>

definition TesselatePolygon ::
  "nat \<Rightarrow> POLYGON_TRIANGULATION \<Rightarrow> SHAPE_LINE_CHAIN \<Rightarrow> (error + bool) \<times> POLYGON_TRIANGULATION" where
  "TesselatePolygon fuel s aPoly =
     (let s1 = s\<lparr>m_bbox := BBox aPoly, m_result := Clear (m_result s)\<rparr> in
      if bb_w (m_bbox s1) = 0 \<or> bb_h (m_bbox s1) = 0 then (Inr False, s1)
      else
        thenS (createList s1 aPoly) (\<lambda>firstVertex s2.
          withE s2 (if firstVertex = None then Inr True
                    else bindE (vertex (m_vertices s2) firstVertex)
                           (\<lambda>F. Inr (v_prev F = v_next F))) (\<lambda>too_small.
            if too_small then (Inr False, s2)
            else
              withE s2 (updateList fuel (m_bbox s2) (m_vertices s2) firstVertex) (\<lambda>h3.
                thenS (earcutList fuel (s2\<lparr>m_vertices := h3\<rparr>) firstVertex) (\<lambda>retval s4.
                  (Inr retval, s4\<lparr>m_vertices := []\<rparr>))))))"

section \<open>Notions used to state the properties\<close>

text \<open>
  Two vertices are \<open>linked\<close> when the first one's \<open>next\<close> is the second and the second
  one's \<open>prev\<close> is the first; \<open>zlinked\<close> is the same for \<open>nextZ\<close> and \<open>prevZ\<close>.  A \<open>ring\<close> is
  a circular doubly-linked list, given by the list of its vertices in \<open>next\<close> order from
  any of them; a \<open>zchain\<close> is a null-terminated doubly-linked list in \<open>nextZ\<close> order.
\<close>

definition linked :: "VERTEX list \<Rightarrow> vptr \<Rightarrow> vptr \<Rightarrow> bool" where
  "linked h a b \<longleftrightarrow> v_next (h ! a) = Some b \<and> v_prev (h ! b) = Some a"

definition zlinked :: "VERTEX list \<Rightarrow> vptr \<Rightarrow> vptr \<Rightarrow> bool" where
  "zlinked h a b \<longleftrightarrow> v_nextZ (h ! a) = Some b \<and> v_prevZ (h ! b) = Some a"

definition ring :: "VERTEX list \<Rightarrow> vptr list \<Rightarrow> bool" where
  "ring h vs \<longleftrightarrow>
     vs \<noteq> [] \<and> distinct vs \<and> (\<forall>a \<in> set vs. a < length h)
     \<and> successively (linked h) (vs @ [hd vs])"

definition zchain :: "VERTEX list \<Rightarrow> vptr list \<Rightarrow> bool" where
  "zchain h zs \<longleftrightarrow>
     distinct zs \<and> (\<forall>a \<in> set zs. a < length h) \<and> successively (zlinked h) zs
     \<and> (zs \<noteq> [] \<longrightarrow> v_prevZ (h ! hd zs) = None \<and> v_nextZ (h ! last zs) = None)"

text \<open>A triangle as a ring with its Z-chain, used as an example state.\<close>

definition example_ring3 :: "VERTEX list" where
  "example_ring3 =
     [\<lparr>v_i = 0, v_x = 0, v_y = 0, v_prev = Some 2, v_next = Some 1, v_z = 0,
       v_prevZ = None, v_nextZ = Some 1\<rparr>,
      \<lparr>v_i = 1, v_x = 4, v_y = 0, v_prev = Some 0, v_next = Some 2, v_z = 1,
       v_prevZ = Some 0, v_nextZ = Some 2\<rparr>,
      \<lparr>v_i = 2, v_x = 4, v_y = 4, v_prev = Some 1, v_next = Some 0, v_z = 3,
       v_prevZ = Some 1, v_nextZ = None\<rparr>]"






text \<open>The same triangle wound the other way.\<close>

definition example_ring3_inverted :: "VERTEX list" where
  "example_ring3_inverted =
     [\<lparr>v_i = 0, v_x = 0, v_y = 0, v_prev = Some 2, v_next = Some 1, v_z = 0,
       v_prevZ = None, v_nextZ = Some 2\<rparr>,
      \<lparr>v_i = 1, v_x = 4, v_y = 4, v_prev = Some 0, v_next = Some 2, v_z = 3,
       v_prevZ = Some 2, v_nextZ = None\<rparr>,
      \<lparr>v_i = 2, v_x = 4, v_y = 0, v_prev = Some 1, v_next = Some 0, v_z = 1,
       v_prevZ = Some 0, v_nextZ = Some 1\<rparr>]"

text \<open>\<open>same_data\<close>: two vertex records agree on everything but the ring links.\<close>

definition same_data :: "VERTEX \<Rightarrow> VERTEX \<Rightarrow> bool" where
  "same_data V W \<longleftrightarrow> v_i V = v_i W \<and> v_x V = v_x W \<and> v_y V = v_y W \<and> v_z V = v_z W
      \<and> v_prevZ V = v_prevZ W \<and> v_nextZ V = v_nextZ W"








text \<open>A freshly constructed triangulator, and the coordinates of a vertex.\<close>

definition fresh :: POLYGON_TRIANGULATION where
  "fresh = \<lparr>m_bbox = \<lparr>bb_x = 0, bb_y = 0, bb_w = 0, bb_h = 0\<rparr>, m_vertices = [],
            m_result = \<lparr>tp_vertices = [], tp_triangles = []\<rparr>\<rparr>"


text \<open>A triangulator whose vertices are the three of the inverted triangle.\<close>

definition inverted_triple_state :: POLYGON_TRIANGULATION where
  "inverted_triple_state = fresh\<lparr>m_vertices := example_ring3_inverted\<rparr>"

section \<open>Properties\<close>

subsection \<open>The Morton key\<close>

lemma lt32_cases:
  assumes "n < (32::nat)"
  shows "n \<in> {0,1,2,3,4,5,6,7,8,9,10,11,12,13,14,15,16,17,18,19,20,21,22,23,24,25,26,27,28,29,30,31}"
  using assms by (simp add: numeral_eq_Suc less_Suc_eq)

lemma spread_bits_bit:
  fixes x :: "32 word"
  assumes hi: "\<And>k. 16 \<le> k \<Longrightarrow> \<not> bit x k" and n: "n < 32"
  shows "bit (spread_bits x) n \<longleftrightarrow> even n \<and> bit x (n div 2)"
  using lt32_cases [OF n]
  apply (simp only: spread_bits_def Let_def bit_and_iff bit_or_iff bit_push_bit_iff insert_iff empty_iff)
  apply (elim disjE)
  apply (simp_all add: hi)
  done

lemma normalize_axis_range:
  assumes "0 < len" "org \<le> a" "a \<le> org + len"
  shows "normalize_axis a org len = (32767 * (a - org)) div len"
    and "0 \<le> normalize_axis a org len" and "normalize_axis a org len \<le> 32767"
proof -
  have nn: "0 \<le> 32767 * (a - org)" using assms by simp
  show eq: "normalize_axis a org len = (32767 * (a - org)) div len"
    using nn assms(1) by (simp add: normalize_axis_def signed_divide_int_def sgn_if)
  show "0 \<le> normalize_axis a org len"
    unfolding eq using nn assms(1) by (simp add: pos_imp_zdiv_nonneg_iff)
  have "32767 * (a - org) \<le> 32767 * len" using assms by simp
  then have "(32767 * (a - org)) div len \<le> (32767 * len) div len"
    using assms(1) by (intro zdiv_mono1) simp_all
  then show "normalize_axis a org len \<le> 32767"
    unfolding eq using assms(1) by simp
qed

lemma bit_word_of_small_int:
  assumes "0 \<le> k" "k \<le> 32767"
  shows "bit (word_of_int k :: 32 word) n \<longleftrightarrow> bit k n"
    and "16 \<le> n \<Longrightarrow> \<not> bit (word_of_int k :: 32 word) n"
proof -
  have small: "k < 2 ^ 16" using assms by simp
  have tk: "take_bit 16 k = k" using assms(1) small by (simp add: take_bit_int_eq_self)
  have hi: "\<not> bit k m" if "16 \<le> m" for m
  proof -
    have "bit k m = bit (take_bit 16 k) m" by (simp only: tk)
    then show ?thesis using that by (simp add: bit_take_bit_iff)
  qed
  show "bit (word_of_int k :: 32 word) n \<longleftrightarrow> bit k n"
    using hi [of n] by (cases "n < 32") (simp_all add: bit_word_of_int_iff)
  show "\<not> bit (word_of_int k :: 32 word) n" if "16 \<le> n"
    using hi [OF that] by (simp add: bit_word_of_int_iff)
qed

text \<open>
  Claim C9.  For a coordinate pair inside the bounding box, \<open>zOrder\<close> scales each axis
  to an integer of at most 16 bits (the integer part of \<open>32767 * (a - org) / len\<close>) and
  interleaves the two: bit \<open>2k\<close> of the key is bit \<open>k\<close> of the scaled \<open>x\<close>, bit \<open>2k + 1\<close> is
  bit \<open>k\<close> of the scaled \<open>y\<close>, and the key has no other bits.
\<close>

theorem zOrder_interleaves_bits:
  assumes "0 < bb_w bb" and "0 < bb_h bb"
    and "bb_x bb \<le> aX" and "aX \<le> bb_x bb + bb_w bb"
    and "bb_y bb \<le> aY" and "aY \<le> bb_y bb + bb_h bb"
  shows "normalize_axis aX (bb_x bb) (bb_w bb) = (32767 * (aX - bb_x bb)) div bb_w bb
       \<and> normalize_axis aY (bb_y bb) (bb_h bb) = (32767 * (aY - bb_y bb)) div bb_h bb
       \<and> 0 \<le> normalize_axis aX (bb_x bb) (bb_w bb) \<and> normalize_axis aX (bb_x bb) (bb_w bb) < 2 ^ 16
       \<and> 0 \<le> normalize_axis aY (bb_y bb) (bb_h bb) \<and> normalize_axis aY (bb_y bb) (bb_h bb) < 2 ^ 16
       \<and> (\<forall>n. bit (zOrder bb aX aY) n \<longleftrightarrow>
              n < 32 \<and> (if even n then bit (normalize_axis aX (bb_x bb) (bb_w bb)) (n div 2)
                        else bit (normalize_axis aY (bb_y bb) (bb_h bb)) (n div 2)))"
proof -
  let ?nx = "normalize_axis aX (bb_x bb) (bb_w bb)"
  let ?ny = "normalize_axis aY (bb_y bb) (bb_h bb)"
  note X = normalize_axis_range [OF assms(1,3,4)]
  note Y = normalize_axis_range [OF assms(2,5,6)]
  note WX = bit_word_of_small_int [OF X(2,3)]
  note WY = bit_word_of_small_int [OF Y(2,3)]
  have bits: "bit (zOrder bb aX aY) n \<longleftrightarrow>
              n < 32 \<and> (if even n then bit ?nx (n div 2) else bit ?ny (n div 2))" for n
  proof (cases "n < 32")
    case False
    then show ?thesis by (auto dest: bit_imp_le_length)
  next
    case True
    have sx: "bit (spread_bits (word_of_int ?nx)) n \<longleftrightarrow> even n \<and> bit ?nx (n div 2)"
      using spread_bits_bit [of "word_of_int ?nx" n] WX True by blast
    show ?thesis
    proof (cases "even n")
      case ev: True
      have "\<not> bit (push_bit 1 (spread_bits (word_of_int ?ny))) n"
      proof (cases "n = 0")
        case True then show ?thesis by (simp only: bit_push_bit_iff) simp
      next
        case False
        then have "odd (n - 1)" "n - 1 < 32" using ev True by auto
        then show ?thesis
          using spread_bits_bit [of "word_of_int ?ny" "n - 1"] WY
          by (simp only: bit_push_bit_iff) blast
      qed
      then show ?thesis using sx ev True by (simp add: zOrder_def Let_def bit_or_iff)
    next
      case od: False
      then have n1: "even (n - 1)" "n - 1 < 32" "1 \<le> n" "(n - 1) div 2 = n div 2"
        using True by (auto elim!: oddE)
      have "bit (push_bit 1 (spread_bits (word_of_int ?ny))) n \<longleftrightarrow> bit ?ny (n div 2)"
        using spread_bits_bit [of "word_of_int ?ny" "n - 1"] WY n1 True
        by (simp only: bit_push_bit_iff) auto
      then show ?thesis using sx od True by (simp add: zOrder_def Let_def bit_or_iff)
    qed
  qed
  show ?thesis using X Y bits by simp
qed

theorem zOrder_interleaves_bits_witness:
  "bit (zOrder \<lparr>bb_x = 0, bb_y = 0, bb_w = 10, bb_h = 10\<rparr> 3 7) 1
     = bit (normalize_axis 7 0 10) 0"
proof -
  let ?bb = "\<lparr>bb_x = 0, bb_y = 0, bb_w = 10, bb_h = 10\<rparr>"
  have "bit (zOrder ?bb 3 7) 1 \<longleftrightarrow>
        1 < (32::nat) \<and> (if even (1::nat) then bit (normalize_axis 3 (bb_x ?bb) (bb_w ?bb)) (1 div 2)
                          else bit (normalize_axis 7 (bb_y ?bb) (bb_h ?bb)) (1 div 2))"
    using zOrder_interleaves_bits [of ?bb 3 7] by simp
  then show ?thesis by simp
qed

subsection \<open>Basic facts about the heap operations\<close>

lemma bindE_Inr_iff: "bindE m f = Inr r \<longleftrightarrow> (\<exists>a. m = Inr a \<and> f a = Inr r)"
  by (cases m) (simp_all add: bindE_def)

lemma bindE_Inr: "bindE (Inr a) f = f a"
  by (simp add: bindE_def)

lemma vertex_Inr_iff: "vertex h p = Inr V \<longleftrightarrow> (\<exists>a. p = Some a \<and> a < length h \<and> V = h ! a)"
  by (auto simp: vertex_def split: option.splits)

lemma upd_Inr_iff:
  "upd h p f = Inr h' \<longleftrightarrow> (\<exists>a. p = Some a \<and> a < length h \<and> h' = h[a := f (h ! a)])"
  by (auto simp: upd_def split: option.splits)

lemma upd_Inr_nth:
  assumes "upd h p f = Inr h'"
  obtains a where "p = Some a" "a < length h" "length h' = length h"
    "\<And>u. u < length h \<Longrightarrow> h' ! u = (if u = a then f (h ! u) else h ! u)"
  using assms by (auto simp: upd_Inr_iff nth_list_update)

lemma remove_Inr:
  assumes "remove h (Some v) = Inr h'"
  obtains n p where "v < length h" "length h' = length h"
    "v_next (h ! v) = Some n" "v_prev (h ! v) = Some p" "n < length h" "p < length h"
    "\<And>u. u < length h \<Longrightarrow>
         v_i (h' ! u) = v_i (h ! u) \<and> v_x (h' ! u) = v_x (h ! u) \<and> v_y (h' ! u) = v_y (h ! u) \<and>
         v_z (h' ! u) = v_z (h ! u)"
    "\<And>u. u < length h \<Longrightarrow>
         v_next (h' ! u) = (if u = v then None else if u = p then Some n else v_next (h ! u))"
    "\<And>u. u < length h \<Longrightarrow>
         v_prev (h' ! u) = (if u = v then None else if u = n then Some p else v_prev (h ! u))"
    "\<And>u. u < length h \<Longrightarrow>
         v_nextZ (h' ! u) = (if u = v then None else if v_prevZ (h ! v) = Some u then v_nextZ (h ! v)
                             else v_nextZ (h ! u))"
    "\<And>u. u < length h \<Longrightarrow>
         v_prevZ (h' ! u) = (if u = v then None else if v_nextZ (h ! v) = Some u then v_prevZ (h ! v)
                             else v_prevZ (h ! u))"
proof -
  from assms obtain h1 h2 h3 h4 where
    v: "v < length h"
    and s1: "upd h (v_next (h ! v)) (\<lambda>u. u\<lparr>v_prev := v_prev (h ! v)\<rparr>) = Inr h1"
    and v1: "v < length h1"
    and s2: "upd h1 (v_prev (h1 ! v)) (\<lambda>u. u\<lparr>v_next := v_next (h1 ! v)\<rparr>) = Inr h2"
    and v2: "v < length h2"
    and s3: "(if v_prevZ (h2 ! v) \<noteq> None
              then upd h2 (v_prevZ (h2 ! v)) (\<lambda>u. u\<lparr>v_nextZ := v_nextZ (h2 ! v)\<rparr>) else Inr h2) = Inr h3"
    and v3: "v < length h3"
    and s4: "(if v_nextZ (h3 ! v) \<noteq> None
              then upd h3 (v_nextZ (h3 ! v)) (\<lambda>u. u\<lparr>v_prevZ := v_prevZ (h3 ! v)\<rparr>) else Inr h3) = Inr h4"
    and s5: "upd h4 (Some v)
               (\<lambda>u. u\<lparr>v_next := None, v_prev := None, v_nextZ := None, v_prevZ := None\<rparr>) = Inr h'"
    unfolding remove_def bindE_Inr_iff vertex_Inr_iff by auto
  from s1 obtain n where n: "v_next (h ! v) = Some n" "n < length h" and l1: "length h1 = length h"
    and h1: "\<And>u. u < length h \<Longrightarrow> h1 ! u = (if u = n then (h ! u)\<lparr>v_prev := v_prev (h ! v)\<rparr> else h ! u)"
    by (rule upd_Inr_nth) auto
  have T1: "h1 ! v = h ! v" using h1 [OF v] by (cases "v = n") simp_all
  from s2 obtain p where p: "v_prev (h ! v) = Some p" "p < length h" and l2: "length h2 = length h"
    and h2: "\<And>u. u < length h \<Longrightarrow> h2 ! u = (if u = p then (h1 ! u)\<lparr>v_next := v_next (h ! v)\<rparr> else h1 ! u)"
    unfolding T1 by (rule upd_Inr_nth) (auto simp: l1)
  have T2: "h2 ! v = h ! v" using h2 [OF v] T1 by (cases "v = p") simp_all
  have l3: "length h3 = length h"
    and h3: "\<And>u. u < length h \<Longrightarrow>
      h3 ! u = (if v_prevZ (h ! v) = Some u then (h2 ! u)\<lparr>v_nextZ := v_nextZ (h ! v)\<rparr> else h2 ! u)"
    using s3 l2 unfolding T2 by (auto simp: upd_Inr_iff nth_list_update split: if_splits)
  have T3: "h3 ! v = h ! v" using h3 [OF v] T2 by (cases "v_prevZ (h ! v) = Some v") simp_all
  have l4: "length h4 = length h"
    and h4: "\<And>u. u < length h \<Longrightarrow>
      h4 ! u = (if v_nextZ (h ! v) = Some u then (h3 ! u)\<lparr>v_prevZ := v_prevZ (h ! v)\<rparr> else h3 ! u)"
    using s4 l3 unfolding T3 by (auto simp: upd_Inr_iff nth_list_update split: if_splits)
  have l5: "length h' = length h"
    and h5: "\<And>u. u < length h \<Longrightarrow>
      h' ! u = (if u = v then (h4 ! u)\<lparr>v_next := None, v_prev := None, v_nextZ := None, v_prevZ := None\<rparr>
                else h4 ! u)"
    using s5 l4 by (auto simp: upd_Inr_iff nth_list_update)
  show ?thesis
  proof (rule that [OF v l5 n(1) p(1) n(2) p(2)])
    fix u assume u: "u < length h"
    note hs = h1 h2 h3 h4 h5 u v n(2) p(2)
    show "v_i (h' ! u) = v_i (h ! u) \<and> v_x (h' ! u) = v_x (h ! u) \<and> v_y (h' ! u) = v_y (h ! u) \<and>
         v_z (h' ! u) = v_z (h ! u)"
      by (simp add: hs)
    show "v_next (h' ! u) = (if u = v then None else if u = p then Some n else v_next (h ! u))"
      by (simp add: hs n)
    show "v_prev (h' ! u) = (if u = v then None else if u = n then Some p else v_prev (h ! u))"
      by (simp add: hs p)
    show "v_nextZ (h' ! u) = (if u = v then None else if v_prevZ (h ! v) = Some u then v_nextZ (h ! v)
                             else v_nextZ (h ! u))"
      by (simp add: hs)
    show "v_prevZ (h' ! u) = (if u = v then None else if v_nextZ (h ! v) = Some u then v_prevZ (h ! v)
                             else v_prevZ (h ! u))"
      by (simp add: hs)
  qed
qed


lemma remove_succeeds:
  assumes "v < length h" "v_next (h ! v) = Some n" "n < length h"
    "v_prev (h ! v) = Some p" "p < length h"
    "\<And>a. v_prevZ (h ! v) = Some a \<Longrightarrow> a < length h"
    "\<And>a. v_nextZ (h ! v) = Some a \<Longrightarrow> a < length h"
  shows "\<exists>h'. remove h (Some v) = Inr h'"
proof -
  define h1 where "h1 = h[n := (h ! n)\<lparr>v_prev := v_prev (h ! v)\<rparr>]"
  have T1: "v_next (h1 ! v) = Some n" "v_prev (h1 ! v) = Some p"
    "v_prevZ (h1 ! v) = v_prevZ (h ! v)" "v_nextZ (h1 ! v) = v_nextZ (h ! v)" "length h1 = length h"
    using assms by (auto simp: h1_def nth_list_update)
  define h2 where "h2 = h1[p := (h1 ! p)\<lparr>v_next := v_next (h1 ! v)\<rparr>]"
  have T2: "v_prevZ (h2 ! v) = v_prevZ (h ! v)" "v_nextZ (h2 ! v) = v_nextZ (h ! v)" "length h2 = length h"
    using assms T1 by (auto simp: h2_def nth_list_update)
  obtain h3 where h3: "(if v_prevZ (h2 ! v) \<noteq> None
              then upd h2 (v_prevZ (h2 ! v)) (\<lambda>u. u\<lparr>v_nextZ := v_nextZ (h2 ! v)\<rparr>) else Inr h2) = Inr h3"
    and T3: "v_nextZ (h3 ! v) = v_nextZ (h ! v)" "v_prevZ (h3 ! v) = v_prevZ (h ! v)" "length h3 = length h"
    using assms(1,6) T2 by (cases "v_prevZ (h ! v)") (auto simp: upd_def nth_list_update)
  obtain h4 where h4: "(if v_nextZ (h3 ! v) \<noteq> None
              then upd h3 (v_nextZ (h3 ! v)) (\<lambda>u. u\<lparr>v_prevZ := v_prevZ (h3 ! v)\<rparr>) else Inr h3) = Inr h4"
    and T4: "length h4 = length h"
    using assms(1,7) T3 by (cases "v_nextZ (h ! v)") (auto simp: upd_def nth_list_update)
  have s1: "upd h (v_next (h ! v)) (\<lambda>u. u\<lparr>v_prev := v_prev (h ! v)\<rparr>) = Inr h1"
    using assms by (simp add: upd_def h1_def)
  have s2: "upd h1 (v_prev (h1 ! v)) (\<lambda>u. u\<lparr>v_next := v_next (h1 ! v)\<rparr>) = Inr h2"
    using assms T1 by (simp add: upd_def h2_def)
  have vs: "vertex h (Some v) = Inr (h ! v)" "vertex h1 (Some v) = Inr (h1 ! v)"
    "vertex h2 (Some v) = Inr (h2 ! v)" "vertex h3 (Some v) = Inr (h3 ! v)"
    using assms(1) T1 T2 T3 by (simp_all add: vertex_def)
  obtain h' where s5: "upd h4 (Some v)
       (\<lambda>u. u\<lparr>v_next := None, v_prev := None, v_nextZ := None, v_prevZ := None\<rparr>) = Inr h'"
    using assms(1) T4 by (simp add: upd_def)
  have "remove h (Some v) = Inr h'"
    unfolding remove_def by (simp only: vs s1 s2 h3 h4 s5 bindE_Inr)
  then show ?thesis ..
qed

subsection \<open>\<open>remove\<close> splices a vertex out of the ring and of the Z-chain\<close>

lemma successively_frame:
  assumes "successively P xs"
    and "\<And>i. Suc i < length xs \<Longrightarrow> P (xs ! i) (xs ! Suc i) \<Longrightarrow> Q (xs ! i) (xs ! Suc i)"
  shows "successively Q xs"
  using assms unfolding successively_conv_nth by blast

lemma ring_headD:
  assumes "ring h (v # rest)" "rest \<noteq> []"
  shows "v < length h" "\<forall>a\<in>set rest. a < length h" "distinct (v # rest)"
    "linked h v (hd rest)" "linked h (last rest) v" "successively (linked h) rest"
proof -
  obtain r rs where rest: "rest = r # rs" using assms(2) by (cases rest) auto
  from assms(1) show "v < length h" "\<forall>a\<in>set rest. a < length h" "distinct (v # rest)"
    by (auto simp: ring_def)
  from assms(1) have s: "successively (linked h) (v # (r # rs) @ [v])"
    by (simp add: ring_def rest)
  then show "linked h v (hd rest)" by (simp add: rest)
  from s have "successively (linked h) ((r # rs) @ [v])" by simp
  then show "linked h (last rest) v" "successively (linked h) rest"
    unfolding rest successively_append_iff by simp_all
qed

lemma zchain_midD:
  assumes "zchain h (before @ v # after)"
  shows "v_prevZ (h ! v) = (if before = [] then None else Some (last before))"
    "v_nextZ (h ! v) = (if after = [] then None else Some (hd after))"
    "successively (zlinked h) before" "successively (zlinked h) after"
    "before \<noteq> [] \<Longrightarrow> v_prevZ (h ! hd before) = None"
    "after \<noteq> [] \<Longrightarrow> v_nextZ (h ! last after) = None"
    "distinct (before @ v # after)" "\<forall>a\<in>set (before @ v # after). a < length h"
proof -
  from assms have d: "distinct (before @ v # after)"
    and val: "\<forall>a\<in>set (before @ v # after). a < length h"
    and s: "successively (zlinked h) (before @ v # after)"
    and e: "v_prevZ (h ! hd (before @ v # after)) = None"
           "v_nextZ (h ! last (before @ v # after)) = None"
    by (auto simp: zchain_def)
  show "distinct (before @ v # after)" "\<forall>a\<in>set (before @ v # after). a < length h"
    by (fact d, fact val)
  from s have sb: "successively (zlinked h) before" and sa: "successively (zlinked h) (v # after)"
    and j: "before \<noteq> [] \<Longrightarrow> zlinked h (last before) v"
    unfolding successively_append_iff by auto
  show "successively (zlinked h) before" by (fact sb)
  from sa show "successively (zlinked h) after" by (cases after) auto
  show "v_prevZ (h ! v) = (if before = [] then None else Some (last before))"
    using e(1) j by (cases "before = []") (auto simp: zlinked_def)
  show "v_nextZ (h ! v) = (if after = [] then None else Some (hd after))"
    using e(2) sa by (cases after) (auto simp: zlinked_def)
  show "before \<noteq> [] \<Longrightarrow> v_prevZ (h ! hd before) = None" using e(1) by simp
  show "after \<noteq> [] \<Longrightarrow> v_nextZ (h ! last after) = None" using e(2) by simp
qed

lemma distinct_nth_last:
  assumes "distinct xs" "Suc i < length xs"
  shows "xs ! i \<noteq> last xs" "xs ! Suc i \<noteq> hd xs"
proof -
  have "xs \<noteq> []" using assms(2) by auto
  then have "last xs = xs ! (length xs - 1)" by (rule last_conv_nth)
  moreover have "i \<noteq> length xs - 1" "i < length xs" "length xs - 1 < length xs" using assms(2) by auto
  ultimately show "xs ! i \<noteq> last xs" using assms(1) by (simp add: nth_eq_iff_index_eq)
  have "hd xs = xs ! 0" using assms(2) by (cases xs) auto
  moreover have "0 < length xs" "Suc i < length xs" using assms(2) by auto
  ultimately show "xs ! Suc i \<noteq> hd xs" using assms(1) by (simp add: nth_eq_iff_index_eq)
qed


lemma zchain_links_inside:
  assumes "zchain h zs" "u \<in> set zs"
  shows "v_nextZ (h ! u) = Some w \<Longrightarrow> w \<in> set zs"
    and "v_prevZ (h ! u) = Some w \<Longrightarrow> w \<in> set zs"
proof -
  from assms(2) obtain k where k: "k < length zs" "u = zs ! k" by (auto simp: in_set_conv_nth)
  have ne: "zs \<noteq> []" using assms(2) by auto
  have s: "successively (zlinked h) zs" and e: "v_prevZ (h ! hd zs) = None" "v_nextZ (h ! last zs) = None"
    using assms(1) ne by (auto simp: zchain_def)
  show "w \<in> set zs" if "v_nextZ (h ! u) = Some w"
  proof (cases "Suc k < length zs")
    case True
    then have "zlinked h (zs ! k) (zs ! Suc k)" using successively_nth [OF s] by blast
    then show ?thesis using that k True by (auto simp: zlinked_def)
  next
    case False
    then have "k = length zs - 1" using k by auto
    then have "u = last zs" using k ne by (simp add: last_conv_nth)
    then show ?thesis using that e by simp
  qed
  show "w \<in> set zs" if "v_prevZ (h ! u) = Some w"
  proof (cases k)
    case 0
    then have "u = hd zs" using k ne by (cases zs) auto
    then show ?thesis using that e by simp
  next
    case (Suc j)
    then have "zlinked h (zs ! j) (zs ! Suc j)" using successively_nth [OF s, of j] k by simp
    then show ?thesis using that k Suc by (auto simp: zlinked_def)
  qed
qed

lemma remove_ring_zchain:
  assumes R: "ring h (v # rest)" and ne: "rest \<noteq> []" and Z: "zchain h (before @ v # after)"
  shows "\<exists>h'. remove h (Some v) = Inr h' \<and> length h' = length h
     \<and> v_next (h' ! v) = None \<and> v_prev (h' ! v) = None
     \<and> v_nextZ (h' ! v) = None \<and> v_prevZ (h' ! v) = None
     \<and> linked h' (last rest) (hd rest)
     \<and> (before \<noteq> [] \<longrightarrow> v_nextZ (h' ! last before) = (if after = [] then None else Some (hd after)))
     \<and> (after \<noteq> [] \<longrightarrow> v_prevZ (h' ! hd after) = (if before = [] then None else Some (last before)))
     \<and> (\<forall>u<length h. v_i (h' ! u) = v_i (h ! u) \<and> v_x (h' ! u) = v_x (h ! u)
            \<and> v_y (h' ! u) = v_y (h ! u) \<and> v_z (h' ! u) = v_z (h ! u))
     \<and> (\<forall>u<length h. u \<noteq> v \<longrightarrow>
            (u \<noteq> last rest \<longrightarrow> v_next (h' ! u) = v_next (h ! u))
          \<and> (u \<noteq> hd rest \<longrightarrow> v_prev (h' ! u) = v_prev (h ! u))
          \<and> (before = [] \<or> u \<noteq> last before \<longrightarrow> v_nextZ (h' ! u) = v_nextZ (h ! u))
          \<and> (after = [] \<or> u \<noteq> hd after \<longrightarrow> v_prevZ (h' ! u) = v_prevZ (h ! u)))
     \<and> ring h' rest \<and> zchain h' (before @ after)
     \<and> (\<forall>u\<in>set rest. v_next (h' ! u) \<noteq> Some v \<and> v_prev (h' ! u) \<noteq> Some v)
     \<and> (\<forall>u\<in>set before \<union> set after. v_nextZ (h' ! u) \<noteq> Some v \<and> v_prevZ (h' ! u) \<noteq> Some v)"
proof -
  note RD = ring_headD [OF R ne]
  note ZD = zchain_midD [OF Z]
  have vn: "v_next (h ! v) = Some (hd rest)" and vp: "v_prev (h ! v) = Some (last rest)"
    using RD(4,5) by (simp_all add: linked_def)
  have hdv: "hd rest < length h" "last rest < length h" "hd rest \<noteq> v" "last rest \<noteq> v"
    using RD(2,3) ne by (auto simp: hd_in_set last_in_set)
  have zval: "\<And>a. v_prevZ (h ! v) = Some a \<Longrightarrow> a < length h"
             "\<And>a. v_nextZ (h ! v) = Some a \<Longrightarrow> a < length h"
    using ZD(8) by (auto simp: ZD(1,2) split: if_splits)
  from remove_succeeds [OF RD(1) vn hdv(1) vp hdv(2) zval]
  obtain h' where rm: "remove h (Some v) = Inr h'" by blast
  from rm obtain n p where len: "length h' = length h"
    and np: "v_next (h ! v) = Some n" "v_prev (h ! v) = Some p"
    and F0: "\<And>u. u < length h \<Longrightarrow>
         v_i (h' ! u) = v_i (h ! u) \<and> v_x (h' ! u) = v_x (h ! u) \<and> v_y (h' ! u) = v_y (h ! u) \<and>
         v_z (h' ! u) = v_z (h ! u)"
    and F1: "\<And>u. u < length h \<Longrightarrow>
         v_next (h' ! u) = (if u = v then None else if u = p then Some n else v_next (h ! u))"
    and F2: "\<And>u. u < length h \<Longrightarrow>
         v_prev (h' ! u) = (if u = v then None else if u = n then Some p else v_prev (h ! u))"
    and F3: "\<And>u. u < length h \<Longrightarrow>
         v_nextZ (h' ! u) = (if u = v then None else if v_prevZ (h ! v) = Some u then v_nextZ (h ! v)
                             else v_nextZ (h ! u))"
    and F4: "\<And>u. u < length h \<Longrightarrow>
         v_prevZ (h' ! u) = (if u = v then None else if v_nextZ (h ! v) = Some u then v_prevZ (h ! v)
                             else v_prevZ (h ! u))"
    by (rule remove_Inr) blast
  have n: "n = hd rest" and p: "p = last rest" using np vn vp by simp_all
  have inb: "\<And>u. u \<in> set before \<Longrightarrow> u < length h \<and> u \<noteq> v \<and> u \<notin> set after"
    and ina: "\<And>u. u \<in> set after \<Longrightarrow> u < length h \<and> u \<noteq> v \<and> u \<notin> set before"
    using ZD(7,8) by auto
  have hA: "after \<noteq> [] \<Longrightarrow> hd after \<notin> set before \<and> hd after \<noteq> v \<and> hd after < length h"
    and lB: "before \<noteq> [] \<Longrightarrow> last before \<notin> set after \<and> last before \<noteq> v \<and> last before < length h"
    using ina [of "hd after"] inb [of "last before"] by auto
  have c_null: "v_next (h' ! v) = None \<and> v_prev (h' ! v) = None
     \<and> v_nextZ (h' ! v) = None \<and> v_prevZ (h' ! v) = None"
    using RD(1) by (simp add: F1 F2 F3 F4)
  have c_link: "linked h' (last rest) (hd rest)"
    using hdv by (simp add: linked_def F1 F2 n p)
  have c_zn: "before \<noteq> [] \<longrightarrow> v_nextZ (h' ! last before) = (if after = [] then None else Some (hd after))"
    using inb [of "last before"] by (simp add: F3 ZD(1,2))
  have c_zp: "after \<noteq> [] \<longrightarrow> v_prevZ (h' ! hd after) = (if before = [] then None else Some (last before))"
    using ina [of "hd after"] by (simp add: F4 ZD(1,2))
  have c_same: "\<forall>u<length h. u \<noteq> v \<longrightarrow>
            (u \<noteq> last rest \<longrightarrow> v_next (h' ! u) = v_next (h ! u))
          \<and> (u \<noteq> hd rest \<longrightarrow> v_prev (h' ! u) = v_prev (h ! u))
          \<and> (before = [] \<or> u \<noteq> last before \<longrightarrow> v_nextZ (h' ! u) = v_nextZ (h ! u))
          \<and> (after = [] \<or> u \<noteq> hd after \<longrightarrow> v_prevZ (h' ! u) = v_prevZ (h ! u))"
    by (auto simp: F1 F2 F3 F4 n p ZD(1,2))
  have c_ring: "ring h' rest"
  proof -
    have "successively (linked h') rest"
    proof (rule successively_frame [OF RD(6)])
      fix i assume i: "Suc i < length rest" and l: "linked h (rest ! i) (rest ! Suc i)"
      have d: "distinct rest" using RD(3) by simp
      have "rest ! i \<in> set rest" "rest ! Suc i \<in> set rest" using i by auto
      then have "rest ! i < length h" "rest ! Suc i < length h" "rest ! i \<noteq> v" "rest ! Suc i \<noteq> v"
        using RD(2,3) by auto
      then show "linked h' (rest ! i) (rest ! Suc i)"
        using l distinct_nth_last [OF d i] by (simp add: linked_def F1 F2 n p)
    qed
    then have "successively (linked h') (rest @ [hd rest])"
      using c_link ne by (simp add: successively_append_iff)
    then show ?thesis using RD(2,3) ne by (simp add: ring_def len)
  qed
  have c_zchain: "zchain h' (before @ after)"
  proof -
    have sb: "successively (zlinked h') before"
    proof (rule successively_frame [OF ZD(3)])
      fix i assume i: "Suc i < length before" and l: "zlinked h (before ! i) (before ! Suc i)"
      have d: "distinct before" using ZD(7) by simp
      have "before ! i \<in> set before" "before ! Suc i \<in> set before" using i by auto
      then show "zlinked h' (before ! i) (before ! Suc i)"
        using l distinct_nth_last [OF d i] inb [of "before ! i"] inb [of "before ! Suc i"] hA
        by (auto simp: zlinked_def F3 F4 ZD(1,2))
    qed
    have sa: "successively (zlinked h') after"
    proof (rule successively_frame [OF ZD(4)])
      fix i assume i: "Suc i < length after" and l: "zlinked h (after ! i) (after ! Suc i)"
      have d: "distinct after" using ZD(7) by simp
      have "after ! i \<in> set after" "after ! Suc i \<in> set after" using i by auto
      then show "zlinked h' (after ! i) (after ! Suc i)"
        using l distinct_nth_last [OF d i] ina [of "after ! i"] ina [of "after ! Suc i"] lB
        by (auto simp: zlinked_def F3 F4 ZD(1,2))
    qed
    have j: "before \<noteq> [] \<Longrightarrow> after \<noteq> [] \<Longrightarrow> zlinked h' (last before) (hd after)"
      using c_zn c_zp by (simp add: zlinked_def)
    have e1: "before @ after \<noteq> [] \<Longrightarrow> v_prevZ (h' ! hd (before @ after)) = None"
    proof (cases "before = []")
      case True
      assume "before @ after \<noteq> []"
      then show ?thesis using True c_zp by simp
    next
      case False
      then show ?thesis
        using inb [of "hd before"] ZD(5) hA by (auto simp: F4 ZD(1,2))
    qed
    have e2: "before @ after \<noteq> [] \<Longrightarrow> v_nextZ (h' ! last (before @ after)) = None"
    proof (cases "after = []")
      case True
      assume "before @ after \<noteq> []"
      then show ?thesis using True c_zn by simp
    next
      case False
      then show ?thesis
        using ina [of "last after"] ZD(6) lB by (auto simp: F3 ZD(1,2))
    qed
    show ?thesis
      unfolding zchain_def using ZD(7,8) sb sa j e1 e2
      by (auto simp: successively_append_iff len)
  qed
  have c_unr: "\<forall>u\<in>set rest. v_next (h' ! u) \<noteq> Some v \<and> v_prev (h' ! u) \<noteq> Some v"
  proof
    fix u assume u: "u \<in> set rest"
    then obtain k where k: "k < length rest" "u = rest ! k" by (auto simp: in_set_conv_nth)
    have s: "successively (linked h') (rest @ [hd rest])" using c_ring by (simp add: ring_def)
    have hd0: "hd rest = rest ! 0" using ne by (cases rest) auto
    have "\<exists>w\<in>set rest. v_next (h' ! u) = Some w"
    proof (cases "Suc k < length rest")
      case True
      then have "linked h' (rest ! k) (rest ! Suc k)"
        using successively_nth [OF s, of k] by (simp add: nth_append)
      then show ?thesis using True k by (auto simp: linked_def)
    next
      case False
      then have "k = length rest - 1" using k by auto
      then have "u = last rest" using k ne by (simp add: last_conv_nth)
      then show ?thesis using c_link ne by (auto simp: linked_def hd_in_set)
    qed
    moreover have "\<exists>w\<in>set rest. v_prev (h' ! u) = Some w"
    proof (cases k)
      case 0
      then have "u = hd rest" using k hd0 by simp
      then show ?thesis using c_link ne by (auto simp: linked_def last_in_set)
    next
      case (Suc j)
      then have "linked h' (rest ! j) (rest ! Suc j)"
        using successively_nth [OF s, of j] k by (simp add: nth_append)
      then show ?thesis using Suc k by (auto simp: linked_def)
    qed
    ultimately show "v_next (h' ! u) \<noteq> Some v \<and> v_prev (h' ! u) \<noteq> Some v"
      using RD(3) by auto
  qed
  have c_zunr: "\<forall>u\<in>set before \<union> set after. v_nextZ (h' ! u) \<noteq> Some v \<and> v_prevZ (h' ! u) \<noteq> Some v"
  proof
    fix u assume u: "u \<in> set before \<union> set after"
    then have "u \<in> set (before @ after)" by simp
    from zchain_links_inside [OF c_zchain this]
    have "v_nextZ (h' ! u) = Some v \<Longrightarrow> v \<in> set (before @ after)"
      and "v_prevZ (h' ! u) = Some v \<Longrightarrow> v \<in> set (before @ after)" by blast+
    then show "v_nextZ (h' ! u) \<noteq> Some v \<and> v_prevZ (h' ! u) \<noteq> Some v"
      using ZD(7) by auto
  qed
  show ?thesis
    using rm len c_null c_link c_zn c_zp F0 c_same c_ring c_zchain c_unr c_zunr by blast
qed

text \<open>
  Claim C10.  Let \<open>v\<close> be a vertex of a ring of at least two vertices (\<open>v # rest\<close> lists
  the ring from \<open>v\<close>) and of a Z-chain (\<open>before @ v # after\<close>).  Then \<open>remove\<close> succeeds;
  afterwards the four links of \<open>v\<close> are null, the former ring neighbours are linked
  to each other and so are the former Z-chain neighbours where they exist, no other
  field of any vertex has changed, the remaining vertices form a ring and a Z-chain,
  and none of their links leads to \<open>v\<close>.
\<close>

theorem remove_splices_vertex:
  assumes R: "ring h (v # rest)" and ne: "rest \<noteq> []" and Z: "zchain h (before @ v # after)"
  shows "\<exists>h'. remove h (Some v) = Inr h' \<and> length h' = length h
     \<and> v_next (h' ! v) = None \<and> v_prev (h' ! v) = None
     \<and> v_nextZ (h' ! v) = None \<and> v_prevZ (h' ! v) = None
     \<and> linked h' (last rest) (hd rest)
     \<and> (before \<noteq> [] \<longrightarrow> v_nextZ (h' ! last before) = (if after = [] then None else Some (hd after)))
     \<and> (after \<noteq> [] \<longrightarrow> v_prevZ (h' ! hd after) = (if before = [] then None else Some (last before)))
     \<and> (\<forall>u<length h. v_i (h' ! u) = v_i (h ! u) \<and> v_x (h' ! u) = v_x (h ! u)
            \<and> v_y (h' ! u) = v_y (h ! u) \<and> v_z (h' ! u) = v_z (h ! u))
     \<and> (\<forall>u<length h. u \<noteq> v \<longrightarrow>
            (u \<noteq> last rest \<longrightarrow> v_next (h' ! u) = v_next (h ! u))
          \<and> (u \<noteq> hd rest \<longrightarrow> v_prev (h' ! u) = v_prev (h ! u))
          \<and> (before = [] \<or> u \<noteq> last before \<longrightarrow> v_nextZ (h' ! u) = v_nextZ (h ! u))
          \<and> (after = [] \<or> u \<noteq> hd after \<longrightarrow> v_prevZ (h' ! u) = v_prevZ (h ! u)))
     \<and> ring h' rest \<and> zchain h' (before @ after)
     \<and> (\<forall>u\<in>set rest. v_next (h' ! u) \<noteq> Some v \<and> v_prev (h' ! u) \<noteq> Some v)
     \<and> (\<forall>u\<in>set before \<union> set after. v_nextZ (h' ! u) \<noteq> Some v \<and> v_prevZ (h' ! u) \<noteq> Some v)"
  using R ne Z by (rule remove_ring_zchain)

theorem remove_splices_vertex_witness:
  "ring example_ring3 [1, 2, 0] \<and> zchain example_ring3 [0, 1, 2]
   \<and> (\<exists>h'. remove example_ring3 (Some 1) = Inr h' \<and> ring h' [2, 0] \<and> zchain h' [0, 2]
          \<and> v_next (h' ! 1) = None \<and> linked h' 0 2)"
proof -
  have R: "ring example_ring3 (1 # [2, 0])"
    by (simp add: ring_def example_ring3_def linked_def)
  have Z: "zchain example_ring3 ([0] @ 1 # [2])"
    by (simp add: zchain_def example_ring3_def zlinked_def)
  have ne: "[2, 0] \<noteq> ([] :: nat list)" by simp
  from remove_splices_vertex [OF R ne Z] R Z show ?thesis by auto
qed

subsection \<open>The ear test\<close>








subsection \<open>\<open>insertVertex\<close> builds a ring\<close>


lemma withE_Inr: "withE s (Inr a) k = k a"
  by (simp add: withE_def)

lemma thenS_Inr: "thenS (Inr a, s) k = k a s"
  by (simp add: thenS_def)











subsection \<open>The winding sum\<close>













subsection \<open>\<open>createList\<close>\<close>





lemma same_data_refl: "same_data A A"
  by (simp add: same_data_def)







subsection \<open>The equations of \<open>earcutList\<close> and \<open>splitPolygon\<close>\<close>

lemma earcutList_0 [code]: "earcutList 0 s aPoint = (Inl OutOfFuel, s)"
  by (simp add: earcutList_def)

lemma earcutList_Suc [code]:
  "earcutList (Suc n) s aPoint =
     (if aPoint = None then (Inr True, s) else earcut_loop n s aPoint aPoint)"
  by (simp only: earcutList_def earcut_loop_def procs_at.simps Let_def procs.select_convs earcutList_body_def)

lemma earcut_loop_0 [code]: "earcut_loop 0 s aPoint stop = (Inl OutOfFuel, s)"
  by (simp add: earcut_loop_def)

lemma earcut_loop_Suc [code]:
  "earcut_loop (Suc n) s aPoint stop =
     withE s (vertex (m_vertices s) aPoint) (\<lambda>A.
       if v_prev A \<noteq> v_next A then
         let prev = v_prev A; next = v_next A in
         withE s (isEar n (m_bbox s) (m_vertices s) aPoint) (\<lambda>ear.
           if ear then
             withE s (vertex (m_vertices s) prev) (\<lambda>P.
             withE s (vertex (m_vertices s) next) (\<lambda>N.
               let s1 = s\<lparr>m_result := AddTriangle (v_i P) (v_i A) (v_i N) (m_result s)\<rparr> in
               withE s1 (remove (m_vertices s1) aPoint) (\<lambda>h2.
                 let s2 = s1\<lparr>m_vertices := h2\<rparr> in
                 withE s2 (vertex h2 next) (\<lambda>N2.
                   earcut_loop n s2 (v_next N2) (v_next N2)))))
           else
             withE s (vertex (m_vertices s) next) (\<lambda>N.
               let nextNext = v_next N in
               withE s (crossing_test (m_vertices s) prev aPoint next nextNext) (\<lambda>crossing.
                 if crossing then
                   withE s (vertex (m_vertices s) prev) (\<lambda>P.
                   withE s (vertex (m_vertices s) nextNext) (\<lambda>NN.
                     let s1 = s\<lparr>m_result := AddTriangle (v_i P) (v_i A) (v_i NN) (m_result s)\<rparr> in
                     withE s1 (remove (m_vertices s1) next) (\<lambda>h2.
                       let s2 = s1\<lparr>m_vertices := h2\<rparr> in
                       withE s2 (remove h2 aPoint) (\<lambda>h3.
                         let s3 = s2\<lparr>m_vertices := h3\<rparr> in
                         earcut_loop n s3 nextNext nextNext))))
                 else if next = stop then
                   withE s (removeNullTriangles n (m_vertices s) next) (\<lambda>(newPoint, h1).
                     let s1 = s\<lparr>m_vertices := h1\<rparr> in
                     if newPoint \<noteq> None then earcut_loop n s1 newPoint newPoint
                     else thenS (splitPolygon n s1 next) (\<lambda>ok s2.
                            if \<not> ok then (Inr False, s2) else earcut_finish s2 next))
                 else earcut_loop n s next stop)))
       else earcut_finish s aPoint)"
  by (simp only: earcut_loop_def splitPolygon_def procs_at.simps Let_def procs.select_convs earcut_loop_body_def)

lemma splitPolygon_0 [code]: "splitPolygon 0 s start = (Inl OutOfFuel, s)"
  by (simp add: splitPolygon_def)

lemma splitPolygon_Suc [code]:
  "splitPolygon (Suc n) s start = splitPolygon_outer n s start start"
  by (simp only: splitPolygon_def splitPolygon_outer_def procs_at.simps Let_def procs.select_convs splitPolygon_body_def)

lemma splitPolygon_outer_0 [code]: "splitPolygon_outer 0 s start origPoly = (Inl OutOfFuel, s)"
  by (simp add: splitPolygon_outer_def)

lemma splitPolygon_outer_Suc [code]:
  "splitPolygon_outer (Suc n) s start origPoly =
     withE s (vertex (m_vertices s) origPoly) (\<lambda>O'.
     withE s (vertex (m_vertices s) (v_next O')) (\<lambda>ON.
       splitPolygon_inner n s start origPoly (v_next ON)))"
  by (simp only: splitPolygon_outer_def splitPolygon_inner_def procs_at.simps Let_def procs.select_convs splitPolygon_outer_body_def)

lemma splitPolygon_inner_0 [code]:
  "splitPolygon_inner 0 s start origPoly marker = (Inl OutOfFuel, s)"
  by (simp add: splitPolygon_inner_def)

lemma splitPolygon_inner_Suc [code]:
  "splitPolygon_inner (Suc n) s start origPoly marker =
     withE s (vertex (m_vertices s) origPoly) (\<lambda>O'.
       if marker \<noteq> v_prev O' then
         withE s (vertex (m_vertices s) marker) (\<lambda>M.
         withE s (if v_i O' \<noteq> v_i M then goodSplit n (m_vertices s) origPoly marker
                  else Inr False) (\<lambda>good.
           if good then
             withE s (split (m_vertices s) origPoly marker) (\<lambda>(newPoly, h1).
               let s1 = s\<lparr>m_vertices := h1\<rparr> in
               withE s1 (updateList n (m_bbox s1) h1 origPoly) (\<lambda>h2.
                 let s2 = s1\<lparr>m_vertices := h2\<rparr> in
                 withE s2 (updateList n (m_bbox s2) h2 newPoly) (\<lambda>h3.
                   let s3 = s2\<lparr>m_vertices := h3\<rparr> in
                   thenS (earcutList n s3 origPoly) (\<lambda>ok s4.
                     if ok then earcutList n s4 newPoly else (Inr False, s4)))))
           else splitPolygon_inner n s start origPoly (v_next M)))
       else if v_next O' \<noteq> start then splitPolygon_outer n s start (v_next O')
       else (Inr False, s))"
  by (simp only: splitPolygon_inner_def splitPolygon_outer_def earcutList_def procs_at.simps
      Let_def procs.select_convs splitPolygon_inner_body_def)

subsection \<open>Emitted triangles are never discarded\<close>

lemma earcut_finish_state: "snd (earcut_finish s p) = s"
  by (auto simp: earcut_finish_def withE_def split: sum.splits)

text \<open>
  The ways through one iteration of the loop of \<open>earcutList\<close>, and through one iteration of
  each loop of \<open>splitPolygon\<close>, as case rules: where the state that results, or the whole
  result, comes from.
\<close>

lemma earcut_loop_Suc_cases:
  fixes n s aPoint stop
  defines "r \<equiv> earcut_loop (Suc n) s aPoint stop"
  defines "h \<equiv> m_vertices s"
  obtains (stay) "snd r = s"
  | (ear) A P N where "vertex h aPoint = Inr A" "v_prev A \<noteq> v_next A"
      "isEar n (m_bbox s) h aPoint = Inr True"
      "vertex h (v_prev A) = Inr P" "vertex h (v_next A) = Inr N"
      "snd r = s\<lparr>m_result := AddTriangle (v_i P) (v_i A) (v_i N) (m_result s)\<rparr>
       \<or> (\<exists>h2. remove h aPoint = Inr h2
            \<and> (snd r = s\<lparr>m_result := AddTriangle (v_i P) (v_i A) (v_i N) (m_result s), m_vertices := h2\<rparr>
               \<or> (\<exists>N2. vertex h2 (v_next A) = Inr N2
                    \<and> r = earcut_loop n (s\<lparr>m_result := AddTriangle (v_i P) (v_i A) (v_i N) (m_result s),
                                              m_vertices := h2\<rparr>) (v_next N2) (v_next N2))))"
  | (crossing) A P N NN where "vertex h aPoint = Inr A" "v_prev A \<noteq> v_next A"
      "vertex h (v_next A) = Inr N"
      "crossing_test h (v_prev A) aPoint (v_next A) (v_next N) = Inr True"
      "vertex h (v_prev A) = Inr P" "vertex h (v_next N) = Inr NN"
      "snd r = s\<lparr>m_result := AddTriangle (v_i P) (v_i A) (v_i NN) (m_result s)\<rparr>
       \<or> (\<exists>h2. remove h (v_next A) = Inr h2
            \<and> (snd r = s\<lparr>m_result := AddTriangle (v_i P) (v_i A) (v_i NN) (m_result s), m_vertices := h2\<rparr>
               \<or> (\<exists>h3. remove h2 aPoint = Inr h3
                    \<and> r = earcut_loop n (s\<lparr>m_result := AddTriangle (v_i P) (v_i A) (v_i NN) (m_result s),
                                              m_vertices := h3\<rparr>) (v_next N) (v_next N))))"
  | (advance) A where "vertex h aPoint = Inr A" "v_prev A \<noteq> v_next A"
      "r = earcut_loop n s (v_next A) stop"
  | (nulltri) A newPoint h1 where "vertex h aPoint = Inr A" "v_prev A \<noteq> v_next A"
      "removeNullTriangles n h (v_next A) = Inr (newPoint, h1)"
      "snd r = s\<lparr>m_vertices := h1\<rparr> \<or> r = earcut_loop n (s\<lparr>m_vertices := h1\<rparr>) newPoint newPoint
       \<or> snd r = snd (splitPolygon n (s\<lparr>m_vertices := h1\<rparr>) (v_next A))"
proof -
  note eq = earcut_loop_Suc [of n s aPoint stop, unfolded Let_def, folded r_def h_def]
  note ev = withE_def thenS_def earcut_finish_state
  show ?thesis
  proof (cases "vertex h aPoint")
    case (Inl e)
    then have "snd r = s" by (simp add: eq ev)
    then show ?thesis by (rule stay)
  next
    case A: (Inr A)
    show ?thesis
    proof (cases "v_prev A = v_next A")
      case True
      then have "snd r = s" using A by (simp add: eq ev)
      then show ?thesis by (rule stay)
    next
      case ne: False
      show ?thesis
      proof (cases "isEar n (m_bbox s) h aPoint")
        case (Inl e)
        then have "snd r = s" using A ne by (simp add: eq ev)
        then show ?thesis by (rule stay)
      next
        case ie: (Inr b)
        show ?thesis
        proof (cases b)
          case True
          show ?thesis
          proof (cases "vertex h (v_prev A)")
            case (Inl e)
            then have "snd r = s" using A ne ie True by (simp add: eq ev)
            then show ?thesis by (rule stay)
          next
            case P: (Inr P)
            show ?thesis
            proof (cases "vertex h (v_next A)")
              case (Inl e)
              then have "snd r = s" using A ne ie True P by (simp add: eq ev)
              then show ?thesis by (rule stay)
            next
              case N: (Inr N)
              let ?s1 = "s\<lparr>m_result := AddTriangle (v_i P) (v_i A) (v_i N) (m_result s)\<rparr>"
              have r1: "r = withE ?s1 (remove h aPoint) (\<lambda>h2.
                 withE (?s1\<lparr>m_vertices := h2\<rparr>) (vertex h2 (v_next A)) (\<lambda>N2.
                   earcut_loop n (?s1\<lparr>m_vertices := h2\<rparr>) (v_next N2) (v_next N2)))"
                using A ne ie True P N by (simp add: eq withE_Inr h_def)
              have d: "snd r = ?s1
                 \<or> (\<exists>h2. remove h aPoint = Inr h2
                      \<and> (snd r = ?s1\<lparr>m_vertices := h2\<rparr>
                         \<or> (\<exists>N2. vertex h2 (v_next A) = Inr N2
                            \<and> r = earcut_loop n (?s1\<lparr>m_vertices := h2\<rparr>) (v_next N2) (v_next N2))))"
              proof (cases "remove h aPoint")
                case (Inl e)
                then show ?thesis by (simp add: r1 ev)
              next
                case rm: (Inr h2)
                show ?thesis
                  by (cases "vertex h2 (v_next A)") (simp_all add: r1 rm ev)
              qed
              show ?thesis by (rule ear [OF A ne _ P N d]) (simp add: ie True)
            qed
          qed
        next
          case False
          show ?thesis
          proof (cases "vertex h (v_next A)")
            case (Inl e)
            then have "snd r = s" using A ne ie False by (simp add: eq ev)
            then show ?thesis by (rule stay)
          next
            case N: (Inr N)
            show ?thesis
            proof (cases "crossing_test h (v_prev A) aPoint (v_next A) (v_next N)")
              case (Inl e)
              then have "snd r = s" using A ne ie False N by (simp add: eq ev)
              then show ?thesis by (rule stay)
            next
              case cr: (Inr c)
              show ?thesis
              proof (cases c)
                case True
                show ?thesis
                proof (cases "vertex h (v_prev A)")
                  case (Inl e)
                  then have "snd r = s" using A ne ie False N cr True by (simp add: eq ev)
                  then show ?thesis by (rule stay)
                next
                  case P: (Inr P)
                  show ?thesis
                  proof (cases "vertex h (v_next N)")
                    case (Inl e)
                    then have "snd r = s" using A ne ie False N cr True P by (simp add: eq ev)
                    then show ?thesis by (rule stay)
                  next
                    case NN: (Inr NN)
                    let ?s1 = "s\<lparr>m_result := AddTriangle (v_i P) (v_i A) (v_i NN) (m_result s)\<rparr>"
                    have r1: "r = withE ?s1 (remove h (v_next A)) (\<lambda>h2.
                       withE (?s1\<lparr>m_vertices := h2\<rparr>) (remove h2 aPoint) (\<lambda>h3.
                         earcut_loop n (?s1\<lparr>m_vertices := h3\<rparr>) (v_next N) (v_next N)))"
                      using A ne ie False N cr True P NN by (simp add: eq withE_Inr h_def)
                    have d: "snd r = ?s1
                       \<or> (\<exists>h2. remove h (v_next A) = Inr h2
                            \<and> (snd r = ?s1\<lparr>m_vertices := h2\<rparr>
                               \<or> (\<exists>h3. remove h2 aPoint = Inr h3
                                  \<and> r = earcut_loop n (?s1\<lparr>m_vertices := h3\<rparr>) (v_next N) (v_next N))))"
                    proof (cases "remove h (v_next A)")
                      case (Inl e)
                      then show ?thesis by (simp add: r1 ev)
                    next
                      case rm: (Inr h2)
                      show ?thesis
                        by (cases "remove h2 aPoint") (simp_all add: r1 rm ev)
                    qed
                    show ?thesis by (rule crossing [OF A ne N _ P NN d]) (simp add: cr True)
                  qed
                qed
              next
                case nc: False
                show ?thesis
                proof (cases "v_next A = stop")
                  case False
                  then have "r = earcut_loop n s (v_next A) stop"
                    using A ne ie \<open>\<not> b\<close> N cr nc by (simp add: eq withE_Inr)
                  then show ?thesis by (rule advance [OF A ne])
                next
                  case st: True
                  have r1: "r = withE s (removeNullTriangles n h (v_next A)) (\<lambda>(newPoint, h1).
                     if newPoint \<noteq> None
                     then earcut_loop n (s\<lparr>m_vertices := h1\<rparr>) newPoint newPoint
                     else thenS (splitPolygon n (s\<lparr>m_vertices := h1\<rparr>) (v_next A)) (\<lambda>ok s2.
                            if \<not> ok then (Inr False, s2) else earcut_finish s2 (v_next A)))"
                    using A ne ie \<open>\<not> b\<close> N cr nc st by (simp add: eq withE_Inr h_def)
                  show ?thesis
                  proof (cases "removeNullTriangles n h (v_next A)")
                    case (Inl e)
                    then have "snd r = s" by (simp add: r1 ev)
                    then show ?thesis by (rule stay)
                  next
                    case (Inr res)
                    obtain newPoint h1 where res: "res = (newPoint, h1)" by (cases res)
                    have d: "snd r = s\<lparr>m_vertices := h1\<rparr>
                        \<or> r = earcut_loop n (s\<lparr>m_vertices := h1\<rparr>) newPoint newPoint
                        \<or> snd r = snd (splitPolygon n (s\<lparr>m_vertices := h1\<rparr>) (v_next A))"
                    proof (cases "newPoint = None")
                      case False
                      then show ?thesis using Inr res by (simp add: r1 withE_Inr)
                    next
                      case True
                      obtain o2 s2 where sp: "splitPolygon n (s\<lparr>m_vertices := h1\<rparr>) (v_next A) = (o2, s2)"
                        by (cases "splitPolygon n (s\<lparr>m_vertices := h1\<rparr>) (v_next A)")
                      have "snd r = s2"
                        using Inr res True sp by (cases o2) (simp_all add: r1 ev)
                      then show ?thesis using sp by simp
                    qed
                    show ?thesis by (rule nulltri [OF A ne _ d]) (simp add: Inr res)
                  qed
                qed
              qed
            qed
          qed
        qed
      qed
    qed
  qed
qed


lemma splitPolygon_outer_Suc_cases:
  fixes n s start origPoly
  defines "r \<equiv> splitPolygon_outer (Suc n) s start origPoly"
  defines "h \<equiv> m_vertices s"
  obtains (stay) "snd r = s"
  | (inner) O' ON where "vertex h origPoly = Inr O'" "vertex h (v_next O') = Inr ON"
      "r = splitPolygon_inner n s start origPoly (v_next ON)"
proof -
  note eq = splitPolygon_outer_Suc [of n s start origPoly, folded r_def h_def]
  show ?thesis
  proof (cases "vertex h origPoly")
    case (Inl e)
    then have "snd r = s" by (simp add: eq withE_def)
    then show ?thesis by (rule stay)
  next
    case O: (Inr O')
    show ?thesis
    proof (cases "vertex h (v_next O')")
      case (Inl e)
      then have "snd r = s" using O by (simp add: eq withE_def)
      then show ?thesis by (rule stay)
    next
      case (Inr ON)
      then have "r = splitPolygon_inner n s start origPoly (v_next ON)"
        using O by (simp add: eq withE_def)
      then show ?thesis by (rule inner [OF O Inr])
    qed
  qed
qed

lemma splitPolygon_inner_Suc_cases:
  fixes n s start origPoly marker
  defines "r \<equiv> splitPolygon_inner (Suc n) s start origPoly marker"
  defines "h \<equiv> m_vertices s"
  obtains (stay) "snd r = s"
  | (found) O' M newPoly h1 where "vertex h origPoly = Inr O'" "marker \<noteq> v_prev O'"
      "vertex h marker = Inr M" "v_i O' \<noteq> v_i M" "goodSplit n h origPoly marker = Inr True"
      "split h origPoly marker = Inr (newPoly, h1)"
      "snd r = s\<lparr>m_vertices := h1\<rparr>
       \<or> (\<exists>h2. updateList n (m_bbox s) h1 origPoly = Inr h2
           \<and> (snd r = s\<lparr>m_vertices := h2\<rparr>
              \<or> (\<exists>h3. updateList n (m_bbox s) h2 newPoly = Inr h3
                  \<and> (snd r = snd (earcutList n (s\<lparr>m_vertices := h3\<rparr>) origPoly)
                     \<or> (\<exists>s4. earcutList n (s\<lparr>m_vertices := h3\<rparr>) origPoly = (Inr True, s4)
                         \<and> r = earcutList n s4 newPoly)))))"
  | (next_marker) O' M where "vertex h origPoly = Inr O'" "marker \<noteq> v_prev O'"
      "vertex h marker = Inr M" "r = splitPolygon_inner n s start origPoly (v_next M)"
  | (next_orig) O' where "vertex h origPoly = Inr O'" "marker = v_prev O'"
      "r = splitPolygon_outer n s start (v_next O')"
proof -
  note eq = splitPolygon_inner_Suc [of n s start origPoly marker, unfolded Let_def, folded r_def h_def]
  note ev = withE_def thenS_def
  show ?thesis
  proof (cases "vertex h origPoly")
    case (Inl e)
    then have "snd r = s" by (simp add: eq ev)
    then show ?thesis by (rule stay)
  next
    case O: (Inr O')
    show ?thesis
    proof (cases "marker = v_prev O'")
      case True
      show ?thesis
      proof (cases "v_next O' = start")
        case st: True
        then have "snd r = s" using O True by (simp add: eq ev)
        then show ?thesis by (rule stay)
      next
        case False
        then have "r = splitPolygon_outer n s start (v_next O')" using O True by (simp add: eq ev)
        then show ?thesis by (rule next_orig [OF O True])
      qed
    next
      case mk: False
      show ?thesis
      proof (cases "vertex h marker")
        case (Inl e)
        then have "snd r = s" using O mk by (simp add: eq ev)
        then show ?thesis by (rule stay)
      next
        case M: (Inr M)
        show ?thesis
        proof (cases "if v_i O' \<noteq> v_i M then goodSplit n h origPoly marker else Inr False")
          case (Inl e)
          then have "snd r = s" using O mk M by (simp add: eq ev h_def)
          then show ?thesis by (rule stay)
        next
          case gs: (Inr good)
          show ?thesis
          proof (cases good)
            case False
            then have "r = splitPolygon_inner n s start origPoly (v_next M)"
              using O mk M gs by (simp add: eq ev h_def)
            then show ?thesis by (rule next_marker [OF O mk M])
          next
            case True
            then have ii: "v_i O' \<noteq> v_i M" and g: "goodSplit n h origPoly marker = Inr True"
              using gs by (auto split: if_splits)
            show ?thesis
            proof (cases "split h origPoly marker")
              case (Inl e)
              then have "snd r = s" using O mk M gs True by (simp add: eq ev h_def)
              then show ?thesis by (rule stay)
            next
              case (Inr res)
              obtain newPoly h1 where res: "res = (newPoly, h1)" by (cases res)
              have r1: "r = withE (s\<lparr>m_vertices := h1\<rparr>) (updateList n (m_bbox s) h1 origPoly) (\<lambda>h2.
                 withE (s\<lparr>m_vertices := h2\<rparr>) (updateList n (m_bbox s) h2 newPoly) (\<lambda>h3.
                   thenS (earcutList n (s\<lparr>m_vertices := h3\<rparr>) origPoly) (\<lambda>ok s4.
                     if ok then earcutList n s4 newPoly else (Inr False, s4))))"
                using O mk M gs True Inr res by (simp add: eq withE_Inr h_def)
              have d: "snd r = s\<lparr>m_vertices := h1\<rparr>
                 \<or> (\<exists>h2. updateList n (m_bbox s) h1 origPoly = Inr h2
                     \<and> (snd r = s\<lparr>m_vertices := h2\<rparr>
                        \<or> (\<exists>h3. updateList n (m_bbox s) h2 newPoly = Inr h3
                            \<and> (snd r = snd (earcutList n (s\<lparr>m_vertices := h3\<rparr>) origPoly)
                               \<or> (\<exists>s4. earcutList n (s\<lparr>m_vertices := h3\<rparr>) origPoly = (Inr True, s4)
                                   \<and> r = earcutList n s4 newPoly)))))"
              proof (cases "updateList n (m_bbox s) h1 origPoly")
                case (Inl e)
                then show ?thesis by (simp add: r1 ev)
              next
                case u1: (Inr h2)
                show ?thesis
                proof (cases "updateList n (m_bbox s) h2 newPoly")
                  case (Inl e)
                  then show ?thesis using u1 by (simp add: r1 ev)
                next
                  case u2: (Inr h3)
                  obtain o4 s4 where e1: "earcutList n (s\<lparr>m_vertices := h3\<rparr>) origPoly = (o4, s4)"
                    by (cases "earcutList n (s\<lparr>m_vertices := h3\<rparr>) origPoly")
                  show ?thesis
                  proof (cases o4)
                    case (Inl e)
                    then show ?thesis using u1 u2 e1 by (simp add: r1 ev)
                  next
                    case (Inr ok)
                    then show ?thesis using u1 u2 e1 by (cases ok) (simp_all add: r1 ev)
                  qed
                qed
              qed
              show ?thesis by (rule found [OF O mk M ii g _ d]) (simp add: Inr res)
            qed
          qed
        qed
      qed
    qed
  qed
qed

text \<open>
  A property of the state that every store of vertices and every appended triangle
  preserves holds after \<open>earcutList\<close> and \<open>splitPolygon\<close>, whatever their outcome.
\<close>

lemma result_invariant:
  assumes heap: "\<And>s h. I s \<Longrightarrow> I (s\<lparr>m_vertices := h\<rparr>)"
    and tri: "\<And>s a b c. I s \<Longrightarrow> I (s\<lparr>m_result := AddTriangle a b c (m_result s)\<rparr>)"
  shows "(\<forall>s p. I s \<longrightarrow> I (snd (earcutList n s p)))
       \<and> (\<forall>s p q. I s \<longrightarrow> I (snd (earcut_loop n s p q)))
       \<and> (\<forall>s p. I s \<longrightarrow> I (snd (splitPolygon n s p)))
       \<and> (\<forall>s p q. I s \<longrightarrow> I (snd (splitPolygon_outer n s p q)))
       \<and> (\<forall>s p q r. I s \<longrightarrow> I (snd (splitPolygon_inner n s p q r)))"
proof (induction n)
  case 0
  show ?case
    by (simp add: earcutList_0 earcut_loop_0 splitPolygon_0 splitPolygon_outer_0 splitPolygon_inner_0)
next
  case (Suc n)
  then have IH: "\<And>s p. I s \<Longrightarrow> I (snd (earcutList n s p))"
    "\<And>s p q. I s \<Longrightarrow> I (snd (earcut_loop n s p q))"
    "\<And>s p. I s \<Longrightarrow> I (snd (splitPolygon n s p))"
    "\<And>s p q. I s \<Longrightarrow> I (snd (splitPolygon_outer n s p q))"
    "\<And>s p q r. I s \<Longrightarrow> I (snd (splitPolygon_inner n s p q r))"
    by blast+
  have 1: "I (snd (earcutList (Suc n) s p))" if "I s" for s p
    using that IH(2) by (simp add: earcutList_Suc)
  have 2: "I (snd (earcut_loop (Suc n) s p q))" if "I s" for s p q
    by (cases rule: earcut_loop_Suc_cases [of n s p q])
       (use that heap tri IH in \<open>auto\<close>)
  have 3: "I (snd (splitPolygon (Suc n) s p))" if "I s" for s p
    using that IH(4) by (simp add: splitPolygon_Suc)
  have 4: "I (snd (splitPolygon_outer (Suc n) s p q))" if "I s" for s p q
    by (cases rule: splitPolygon_outer_Suc_cases [of n s p q])
       (use that IH in \<open>auto\<close>)
  have IH1: "I s'" if "I s" "earcutList n s p = (b, s')" for s p b s'
    using IH(1) [OF that(1), of p] that(2) by simp
  have 5: "I (snd (splitPolygon_inner (Suc n) s p q r))" if "I s" for s p q r
    by (cases rule: splitPolygon_inner_Suc_cases [of n s p q r])
       (use that heap IH in \<open>auto dest: IH1 [rotated]\<close>)
  from 1 2 3 4 5 show ?case by blast
qed


lemma triangles_grow:
  "prefix T (tp_triangles (m_result s)) \<Longrightarrow>
   prefix T (tp_triangles (m_result (snd (earcutList fuel s aPoint))))"
  using result_invariant [where I = "\<lambda>s. prefix T (tp_triangles (m_result s))" and n = fuel]
  by (simp add: AddTriangle_def)

lemma triangles_grow_splitPolygon:
  "prefix T (tp_triangles (m_result s)) \<Longrightarrow>
   prefix T (tp_triangles (m_result (snd (splitPolygon fuel s start))))"
  using result_invariant [where I = "\<lambda>s. prefix T (tp_triangles (m_result s))" and n = fuel]
  by (simp add: AddTriangle_def)

text \<open>
  Claim C4.  The triangle list at the end of \<open>earcutList\<close> extends the list at its start,
  whatever the outcome; and in an iteration of the loop that finds no ear and no crossing,
  has come round to \<open>stop\<close>, and in which \<open>removeNullTriangles\<close> removes nothing and
  \<open>splitPolygon\<close> returns false, \<open>earcutList\<close> returns false in the state \<open>splitPolygon\<close>
  left, whose triangle list extends the one before.
\<close>

theorem earcutList_keeps_triangles:
  "prefix (tp_triangles (m_result s)) (tp_triangles (m_result (snd (earcutList fuel s aPoint))))
   \<and> (vertex (m_vertices s) aPoint = Inr A \<and> v_prev A \<noteq> v_next A
       \<and> isEar n (m_bbox s) (m_vertices s) aPoint = Inr False
       \<and> vertex (m_vertices s) (v_next A) = Inr N
       \<and> crossing_test (m_vertices s) (v_prev A) aPoint (v_next A) (v_next N) = Inr False
       \<and> v_next A = stop
       \<and> removeNullTriangles n (m_vertices s) (v_next A) = Inr (None, h1)
       \<and> splitPolygon n (s\<lparr>m_vertices := h1\<rparr>) (v_next A) = (Inr False, s2)
      \<longrightarrow> earcut_loop (Suc n) s aPoint stop = (Inr False, s2)
          \<and> prefix (tp_triangles (m_result s)) (tp_triangles (m_result s2)))"
proof (intro conjI impI)
  show "prefix (tp_triangles (m_result s)) (tp_triangles (m_result (snd (earcutList fuel s aPoint))))"
    by (rule triangles_grow) simp
next
  assume a: "vertex (m_vertices s) aPoint = Inr A \<and> v_prev A \<noteq> v_next A
       \<and> isEar n (m_bbox s) (m_vertices s) aPoint = Inr False
       \<and> vertex (m_vertices s) (v_next A) = Inr N
       \<and> crossing_test (m_vertices s) (v_prev A) aPoint (v_next A) (v_next N) = Inr False
       \<and> v_next A = stop
       \<and> removeNullTriangles n (m_vertices s) (v_next A) = Inr (None, h1)
       \<and> splitPolygon n (s\<lparr>m_vertices := h1\<rparr>) (v_next A) = (Inr False, s2)"
  then have f: "vertex (m_vertices s) aPoint = Inr A" "v_prev A \<noteq> v_next A"
      "isEar n (m_bbox s) (m_vertices s) aPoint = Inr False"
      "vertex (m_vertices s) (v_next A) = Inr N"
      "crossing_test (m_vertices s) (v_prev A) aPoint (v_next A) (v_next N) = Inr False"
      "removeNullTriangles n (m_vertices s) (v_next A) = Inr (None, h1)"
      "splitPolygon n (s\<lparr>m_vertices := h1\<rparr>) (v_next A) = (Inr False, s2)"
    and st: "stop = v_next A"
    by auto
  show "earcut_loop (Suc n) s aPoint stop = (Inr False, s2)"
    unfolding st by (simp add: earcut_loop_Suc Let_def f withE_Inr thenS_Inr)
  have "prefix (tp_triangles (m_result (s\<lparr>m_vertices := h1\<rparr>)))
          (tp_triangles (m_result (snd (splitPolygon n (s\<lparr>m_vertices := h1\<rparr>) (v_next A)))))"
    by (rule triangles_grow_splitPolygon) simp
  then show "prefix (tp_triangles (m_result s)) (tp_triangles (m_result s2))"
    by (simp add: f(7))
qed

theorem earcutList_keeps_triangles_witness:
  "earcut_loop 11 inverted_triple_state (Some 0) (Some 1) = (Inr False, inverted_triple_state)"
proof -
  let ?s = inverted_triple_state
  let ?A = "example_ring3_inverted ! 0" and ?N = "example_ring3_inverted ! 1"
  have h: "m_vertices ?s = example_ring3_inverted" by (simp add: inverted_triple_state_def)
  have 1: "vertex (m_vertices ?s) (Some 0) = Inr ?A" by code_simp
  have 2: "v_prev ?A \<noteq> v_next ?A" by code_simp
  have 3: "isEar 10 (m_bbox ?s) (m_vertices ?s) (Some 0) = Inr False" by code_simp
  have 4: "vertex (m_vertices ?s) (v_next ?A) = Inr ?N" by code_simp
  have 5: "crossing_test (m_vertices ?s) (v_prev ?A) (Some 0) (v_next ?A) (v_next ?N) = Inr False"
    by code_simp
  have 6: "v_next ?A = Some 1" by code_simp
  have 7: "removeNullTriangles 10 (m_vertices ?s) (v_next ?A) = Inr (None, example_ring3_inverted)"
    by code_simp
  have 8: "splitPolygon 10 (?s\<lparr>m_vertices := example_ring3_inverted\<rparr>) (v_next ?A) = (Inr False, ?s)"
    by code_simp
  show ?thesis
    using earcutList_keeps_triangles [of ?s 0 "Some 0" ?A 10 ?N "Some 1" example_ring3_inverted ?s]
      1 2 3 4 5 6 7 8 by simp
qed

subsection \<open>Degenerate input\<close>








subsection \<open>Three vertices left\<close>

text \<open>
  Claim C7 at a bowtie.  \<open>TesselatePolygon\<close> emits one triangle and is left with three
  vertices whose signed area is positive (the inverted triangle of
  \<open>inverted_triple_state\<close>); \<open>earcutList\<close> then returns false, from the
  \<open>if( !splitPolygon( aPoint ) ) return false;\<close> in its loop, and not true as the code after
  the loop and its comment intend for three concave points: \<open>earcut_finish\<close>, the code
  after the loop, does return true in that state.  Three vertices of negative signed
  area are clipped as an ear, and the call succeeds.
\<close>

theorem inverted_triple_returns_false:
  "fst (TesselatePolygon 30 fresh [(0, 0), (2, 2), (2, 0), (0, 2)]) = Inr False
   \<and> tp_triangles (m_result (snd (TesselatePolygon 30 fresh [(0, 0), (2, 2), (2, 0), (0, 2)])))
       = [(2, 3, 0)]
   \<and> area example_ring3_inverted (Some 2) (Some 0) (Some 1) = Inr 16
   \<and> earcutList 30 inverted_triple_state (Some 0) = (Inr False, inverted_triple_state)
   \<and> earcut_finish inverted_triple_state (Some 0) = (Inr True, inverted_triple_state)
   \<and> fst (earcutList 30 (fresh\<lparr>m_vertices := example_ring3\<rparr>) (Some 0)) = Inr True
   \<and> tp_triangles (m_result (snd (earcutList 30 (fresh\<lparr>m_vertices := example_ring3\<rparr>) (Some 0))))
       = [(2, 0, 1)]"
  by code_simp

end
